(* ===== verification/Prelude.thy ===== *)
theory Prelude
  imports Complex_Main "HOL-Library.Word"
begin

text \<open>
  Shared vocabulary of the steg development.  A channel buffer
  (\<open>ImageData.data\<close>) and every byte array of \<open>src/index.ts\<close> is a list of
  \<open>8 word\<close>s.  JavaScript numbers computed from bytes by the bitwise operators
  stay below \<open>2^16\<close> in this program, so they are modelled as \<open>nat\<close> with the
  library's bit operations (\<open>push_bit\<close>, \<open>drop_bit\<close>, \<open>AND\<close>, \<open>OR\<close>).
  Two pieces of JavaScript semantics are written out here because the code
  relies on them: a typed-array read past the end yields \<open>undefined\<close>, which a
  bitwise operator turns into 0 (\<open>js_get\<close>); and a store into a typed array
  converts the number, clamping for \<open>Uint8ClampedArray\<close> (the type of
  \<open>ImageData.data\<close>) and wrapping modulo 256 for \<open>Uint8Array\<close>
  (\<open>store_byte\<close>).  A store past the end is ignored, which is exactly what the
  list update \<open>xs[i := v]\<close> does out of range.  The bit-list functions
  \<open>to_bits\<close>, \<open>bits_val\<close>, \<open>bits_of_bytes\<close> and \<open>bytes_of_bits\<close> are the
  abstract view of the codec's bit stream (most significant bit first) in
  which the writer and the reader are specified.
\<close>

unbundle bit_operations_syntax

type_synonym byte = "8 word"
type_synonym bytes = "byte list"

text \<open>A source of random bytes: the \<open>i\<close>-th byte it will deliver.\<close>

type_synonym rng = "nat \<Rightarrow> byte"

named_theorems bitlist_simps "rewrites between numbers and most-significant-first bit lists"

subsection \<open>JavaScript typed arrays\<close>

datatype array_kind = Uint8Clamped | Uint8Plain

definition store_byte :: "array_kind \<Rightarrow> nat \<Rightarrow> byte" where
  "store_byte k v = (case k of
      Uint8Clamped \<Rightarrow> (if 255 < v then 255 else of_nat v)
    | Uint8Plain \<Rightarrow> of_nat v)"

definition js_get :: "bytes \<Rightarrow> nat \<Rightarrow> nat" where
  "js_get xs i = (if i < length xs then unat (xs ! i) else 0)"

text \<open>
  Error propagation: \<open>sbind m f\<close> is \<open>m\<close>'s exception if it raised, else \<open>f\<close> of
  its value (the sequencing of two statements that may throw).
\<close>

definition sbind :: "'e + 'a \<Rightarrow> ('a \<Rightarrow> 'e + 'b) \<Rightarrow> 'e + 'b" where
  "sbind m f = (case m of Inl e \<Rightarrow> Inl e | Inr a \<Rightarrow> f a)"

text \<open>
  \<open>TypedArray.prototype.set\<close>, \<open>subarray\<close> (clamped to the array) and the
  big-endian \<open>DataView\<close> accessors used by \<open>RawFile\<close>; an access past the end
  raises \<open>RangeError\<close>, passed in as \<open>err\<close> so that the error type stays the
  program's.  \<open>setUint32\<close> stores \<open>ToUint32 v\<close>, i.e. \<open>v mod 2^32\<close>, which the
  byte-wise \<open>of_nat\<close> into \<open>8 word\<close> performs.
\<close>

definition typed_set :: "'e \<Rightarrow> bytes \<Rightarrow> bytes \<Rightarrow> nat \<Rightarrow> 'e + bytes" where
  "typed_set err dst src off =
     (if length dst < off + length src then Inl err
      else Inr (take off dst @ src @ drop (off + length src) dst))"

definition subarray :: "bytes \<Rightarrow> nat \<Rightarrow> nat \<Rightarrow> bytes" where
  "subarray xs a b = take (b - a) (drop a xs)"

definition u32_be :: "nat \<Rightarrow> bytes" where
  "u32_be v = [of_nat (v div 2 ^ 24), of_nat (v div 2 ^ 16), of_nat (v div 2 ^ 8), of_nat v]"

definition be_val :: "bytes \<Rightarrow> nat" where
  "be_val bs = foldl (\<lambda>acc b. acc * 256 + unat b) 0 bs"

definition dv_getUint8 :: "'e \<Rightarrow> bytes \<Rightarrow> nat \<Rightarrow> 'e + nat" where
  "dv_getUint8 err xs off = (if off < length xs then Inr (unat (xs ! off)) else Inl err)"

definition dv_setUint8 :: "'e \<Rightarrow> bytes \<Rightarrow> nat \<Rightarrow> nat \<Rightarrow> 'e + bytes" where
  "dv_setUint8 err xs off v = (if off < length xs then Inr (xs[off := of_nat v]) else Inl err)"

definition dv_getUint32 :: "'e \<Rightarrow> bytes \<Rightarrow> nat \<Rightarrow> 'e + nat" where
  "dv_getUint32 err xs off =
     (if length xs < off + 4 then Inl err else Inr (be_val (take 4 (drop off xs))))"

definition dv_setUint32 :: "'e \<Rightarrow> bytes \<Rightarrow> nat \<Rightarrow> nat \<Rightarrow> 'e + bytes" where
  "dv_setUint32 err xs off v =
     (if length xs < off + 4 then Inl err else Inr (take off xs @ u32_be v @ drop (off + 4) xs))"

subsection \<open>Bit lists\<close>

primrec to_bits :: "nat \<Rightarrow> nat \<Rightarrow> bool list" where
  "to_bits 0 v = []"
| "to_bits (Suc n) v = bit v n # to_bits n v"

primrec bits_val :: "bool list \<Rightarrow> nat" where
  "bits_val [] = 0"
| "bits_val (b # bs) = of_bool b * 2 ^ length bs + bits_val bs"

definition bits_of_bytes :: "bytes \<Rightarrow> bool list" where
  "bits_of_bytes xs = concat (map (\<lambda>b. to_bits 8 (unat b)) xs)"

function bytes_of_bits :: "bool list \<Rightarrow> bytes" where
  "bytes_of_bits bs =
     (if length bs < 8 then [] else of_nat (bits_val (take 8 bs)) # bytes_of_bits (drop 8 bs))"
  by pat_completeness auto
termination
  by (relation "measure length") auto

declare bytes_of_bits.simps [simp del]

text \<open>Cutting a bit list into groups of \<open>n\<close> (each read as a number) and the
  incomplete group that is left over.\<close>

function chunk_vals :: "nat \<Rightarrow> bool list \<Rightarrow> nat list" where
  "chunk_vals n bs =
     (if n = 0 \<or> length bs < n then [] else bits_val (take n bs) # chunk_vals n (drop n bs))"
  by pat_completeness auto
termination
  by (relation "measure (\<lambda>(n, bs). length bs)") auto

function chunk_rest :: "nat \<Rightarrow> bool list \<Rightarrow> bool list" where
  "chunk_rest n bs = (if n = 0 \<or> length bs < n then bs else chunk_rest n (drop n bs))"
  by pat_completeness auto
termination
  by (relation "measure (\<lambda>(n, bs). length bs)") auto

declare chunk_vals.simps [simp del] chunk_rest.simps [simp del]

subsection \<open>Lemmas on typed arrays\<close>

lemma fold_keeps: "(\<And>x s. f (g x s) = f s) \<Longrightarrow> f (fold g xs s) = f s"
  by (induction xs arbitrary: s) simp_all

lemma unat_byte_less [simp]: "unat (x :: byte) < 256"
proof -
  have "unat x < 2 ^ LENGTH(8)"
    by (rule unsigned_less)
  then show ?thesis by simp
qed

lemma unat_store_byte [simp]: "v < 256 \<Longrightarrow> unat (store_byte k v) = v"
  by (cases k) (simp_all add: store_byte_def unat_of_nat)

lemma js_get_less: "js_get xs i < 256"
  by (simp add: js_get_def)

lemma js_get_update_other [simp]: "j \<noteq> i \<Longrightarrow> js_get (xs[j := v]) i = js_get xs i"
  by (simp add: js_get_def)

lemma js_get_update_same:
  "i < length xs \<Longrightarrow> js_get (xs[i := v]) i = unat v"
  by (simp add: js_get_def)

lemma js_get_beyond [simp]: "length xs \<le> i \<Longrightarrow> js_get xs i = 0"
  by (simp add: js_get_def)

lemma sbind_Inl [simp]: "sbind (Inl e) f = Inl e"
  by (simp add: sbind_def)

lemma sbind_Inr [simp]: "sbind (Inr a) f = f a"
  by (simp add: sbind_def)

lemma sbind_eq_Inr: "sbind m f = Inr b \<longleftrightarrow> (\<exists>a. m = Inr a \<and> f a = Inr b)"
  by (cases m) simp_all

lemma typed_set_fits [simp]:
  "off + length src \<le> length dst \<Longrightarrow>
   typed_set err dst src off = Inr (take off dst @ src @ drop (off + length src) dst)"
  by (simp add: typed_set_def)

lemma length_u32_be [simp]: "length (u32_be v) = 4"
  by (simp add: u32_be_def)

lemma be_val_u32_be [simp]: "be_val (u32_be v) = v mod 2 ^ 32"
proof -
  have m16: "v mod 2 ^ 16 = 2 ^ 8 * (v div 2 ^ 8 mod 2 ^ 8) + v mod 2 ^ 8"
    using mod_mult2_eq [of v "2 ^ 8" "2 ^ 8"] by (simp flip: power_add)
  have m24: "v mod 2 ^ 24 = 2 ^ 16 * (v div 2 ^ 16 mod 2 ^ 8) + v mod 2 ^ 16"
    using mod_mult2_eq [of v "2 ^ 16" "2 ^ 8"] by (simp flip: power_add)
  have m32: "v mod 2 ^ 32 = 2 ^ 24 * (v div 2 ^ 24 mod 2 ^ 8) + v mod 2 ^ 24"
    using mod_mult2_eq [of v "2 ^ 24" "2 ^ 8"] by (simp flip: power_add)
  have "be_val (u32_be v) =
        ((v div 2 ^ 24 mod 256 * 256 + v div 2 ^ 16 mod 256) * 256 + v div 2 ^ 8 mod 256) * 256
        + v mod 256"
    by (simp add: be_val_def u32_be_def unat_of_nat)
  also have "\<dots> = v mod 2 ^ 32"
    by (simp only: m32 m24 m16) simp
  finally show ?thesis .
qed

lemma dv_getUint32_ok:
  "off + 4 \<le> length xs \<Longrightarrow> dv_getUint32 err xs off = Inr (be_val (take 4 (drop off xs)))"
  by (simp add: dv_getUint32_def)

subsection \<open>Lemmas on bit lists\<close>

lemma length_to_bits [simp]: "length (to_bits n v) = n"
  by (induction n) simp_all

lemma nth_to_bits: "i < n \<Longrightarrow> to_bits n v ! i = bit v (n - Suc i)"
proof (induction n arbitrary: i)
  case 0
  then show ?case by simp
next
  case (Suc n)
  then show ?case by (cases i) simp_all
qed

lemma bits_val_less: "bits_val bs < 2 ^ length bs"
proof (induction bs)
  case Nil
  then show ?case by simp
next
  case (Cons b bs)
  then show ?case by (cases b) simp_all
qed

lemma bits_val_append [bitlist_simps]:
  "bits_val (xs @ ys) = bits_val xs * 2 ^ length ys + bits_val ys"
  by (induction xs) (simp_all add: algebra_simps power_add)

lemma mod_pow_Suc_split: "(v::nat) mod 2 ^ Suc n = of_bool (bit v n) * 2 ^ n + v mod 2 ^ n"
  using take_bit_Suc_from_most [of n v] by (simp add: take_bit_eq_mod ac_simps)

lemma bits_val_to_bits [simp]: "bits_val (to_bits n v) = v mod 2 ^ n"
proof (induction n)
  case 0
  then show ?case by simp
next
  case (Suc n)
  have "bits_val (to_bits (Suc n) v) = of_bool (bit v n) * 2 ^ n + v mod 2 ^ n"
    by (simp add: Suc.IH)
  also have "\<dots> = v mod 2 ^ Suc n"
    by (rule mod_pow_Suc_split [symmetric])
  finally show ?case .
qed

lemma to_bits_cong: "(\<And>i. i < n \<Longrightarrow> bit v i = bit w i) \<Longrightarrow> to_bits n v = to_bits n w"
  by (induction n) simp_all

lemma bit_mult_pow_add: "i < n \<Longrightarrow> bit (a * 2 ^ n + v :: nat) i = bit v i"
proof -
  assume "i < n"
  have "take_bit n (a * 2 ^ n + v) = take_bit n v"
    by (simp add: take_bit_eq_mod)
  then show ?thesis using \<open>i < n\<close>
    by (metis bit_take_bit_iff)
qed

lemma to_bits_mod [bitlist_simps]: "to_bits n (v mod 2 ^ n) = to_bits n v"
  by (rule to_bits_cong) (simp add: bit_take_bit_iff flip: take_bit_eq_mod)

lemma to_bits_bits_val [bitlist_simps]: "length bs = n \<Longrightarrow> to_bits n (bits_val bs) = bs"
proof (induction bs arbitrary: n)
  case Nil
  then show ?case by simp
next
  case (Cons b bs)
  then obtain m where n: "n = Suc m" and m: "length bs = m" by auto
  have "to_bits m (of_bool b * 2 ^ m + bits_val bs) = to_bits m (bits_val bs)"
    by (rule to_bits_cong) (simp add: bit_mult_pow_add)
  moreover have "bit (of_bool b * 2 ^ m + bits_val bs) m = b"
    using bits_val_less [of bs] m by (simp add: bit_iff_odd)
  ultimately show ?case using n m Cons.IH by simp
qed

lemma to_bits_add [bitlist_simps]: "to_bits (m + n) v = to_bits m (v div 2 ^ n) @ to_bits n v"
  by (induction m) (simp_all add: bit_iff_odd div_exp_eq ac_simps)

lemma to_bits_shift_add [bitlist_simps]:
  "w < 2 ^ n \<Longrightarrow> to_bits (m + n) (v * 2 ^ n + w) = to_bits m v @ to_bits n w"
proof -
  assume w: "w < 2 ^ n"
  have "to_bits n (v * 2 ^ n + w) = to_bits n w"
    by (rule to_bits_cong) (simp add: bit_mult_pow_add)
  moreover have "(v * 2 ^ n + w) div 2 ^ n = v"
    using w by simp
  ultimately show ?thesis by (simp add: to_bits_add)
qed

lemma length_bits_of_bytes [simp]: "length (bits_of_bytes xs) = 8 * length xs"
  by (induction xs) (simp_all add: bits_of_bytes_def)

lemma bits_of_bytes_Nil [simp]: "bits_of_bytes [] = []"
  by (simp add: bits_of_bytes_def)

lemma bits_of_bytes_Cons: "bits_of_bytes (x # xs) = to_bits 8 (unat x) @ bits_of_bytes xs"
  by (simp add: bits_of_bytes_def)

lemma bytes_of_bits_short: "length bs < 8 \<Longrightarrow> bytes_of_bits bs = []"
  by (simp add: bytes_of_bits.simps)

lemma bytes_of_bits_prefix [bitlist_simps]:
  "bytes_of_bits (bits_of_bytes xs @ r) = xs @ bytes_of_bits r"
proof (induction xs)
  case Nil
  then show ?case by (simp add: bits_of_bytes_def)
next
  case (Cons x xs)
  let ?bs = "to_bits 8 (unat x) @ (bits_of_bytes xs @ r)"
  have "bytes_of_bits ?bs = of_nat (bits_val (to_bits 8 (unat x))) # bytes_of_bits (bits_of_bytes xs @ r)"
    by (subst bytes_of_bits.simps) simp
  also have "\<dots> = x # xs @ bytes_of_bits r"
    by (simp add: Cons.IH)
  finally show ?case by (simp add: bits_of_bytes_Cons)
qed

subsection \<open>Lemmas on bit groups\<close>

lemma chunk_vals_short [simp]: "length bs < n \<Longrightarrow> chunk_vals n bs = []"
  by (simp add: chunk_vals.simps)

lemma chunk_rest_short [simp]: "length bs < n \<Longrightarrow> chunk_rest n bs = bs"
  by (simp add: chunk_rest.simps)

lemma chunk_vals_group:
  "0 < n \<Longrightarrow> length xs = n \<Longrightarrow> chunk_vals n (xs @ ys) = bits_val xs # chunk_vals n ys"
  by (subst chunk_vals.simps) simp

lemma chunk_rest_group:
  "0 < n \<Longrightarrow> length xs = n \<Longrightarrow> chunk_rest n (xs @ ys) = chunk_rest n ys"
  by (subst chunk_rest.simps) simp

lemma chunk_rest_less: "0 < n \<Longrightarrow> length (chunk_rest n bs) < n"
  by (induction n bs rule: chunk_rest.induct) (subst chunk_rest.simps, simp)

lemma chunk_vals_less: "v \<in> set (chunk_vals n bs) \<Longrightarrow> v < 2 ^ n"
proof (induction n bs rule: chunk_vals.induct)
  case (1 n bs)
  show ?case
  proof (cases "n = 0 \<or> length bs < n")
    case True
    with "1.prems" show ?thesis by (simp add: chunk_vals.simps)
  next
    case False
    with "1.prems" have "v = bits_val (take n bs) \<or> v \<in> set (chunk_vals n (drop n bs))"
      by (subst (asm) chunk_vals.simps) simp
    then show ?thesis
      using False "1.IH" bits_val_less [of "take n bs"] by auto
  qed
qed

lemma length_chunk_vals: "0 < n \<Longrightarrow> length (chunk_vals n bs) = length bs div n"
proof (induction n bs rule: chunk_vals.induct)
  case (1 n bs)
  then show ?case
    by (subst chunk_vals.simps) (auto simp add: le_div_geq)
qed

lemma chunk_concat:
  "0 < n \<Longrightarrow> concat (map (to_bits n) (chunk_vals n bs)) @ chunk_rest n bs = bs"
proof (induction n bs rule: chunk_vals.induct)
  case (1 n bs)
  show ?case
  proof (cases "length bs < n")
    case True
    then show ?thesis by simp
  next
    case False
    have "to_bits n (bits_val (take n bs)) = take n bs"
      using False by (simp add: to_bits_bits_val)
    then show ?thesis
      using False "1.prems" "1.IH"
      by (subst chunk_vals.simps, subst chunk_rest.simps) simp
  qed
qed

lemma chunk_vals_append:
  "0 < n \<Longrightarrow> chunk_vals n (xs @ ys) = chunk_vals n xs @ chunk_vals n (chunk_rest n xs @ ys)"
proof (induction n xs rule: chunk_vals.induct)
  case (1 n xs)
  show ?case
  proof (cases "length xs < n")
    case True
    then show ?thesis by simp
  next
    case False
    let ?a = "take n xs" and ?b = "drop n xs"
    have xs: "xs = ?a @ ?b" and a: "length ?a = n"
      using False by simp_all
    have "chunk_vals n (xs @ ys) = bits_val ?a # chunk_vals n (?b @ ys)"
      using "1.prems" a by (subst xs) (simp only: append.assoc chunk_vals_group)
    also have "\<dots> = bits_val ?a # chunk_vals n ?b @ chunk_vals n (chunk_rest n ?b @ ys)"
      using "1.IH" "1.prems" False by simp
    also have "\<dots> = chunk_vals n xs @ chunk_vals n (chunk_rest n xs @ ys)"
      using "1.prems" a by (subst (1 2) xs) (simp only: chunk_vals_group chunk_rest_group append_Cons)
    finally show ?thesis .
  qed
qed

lemma chunk_rest_append:
  "0 < n \<Longrightarrow> chunk_rest n (xs @ ys) = chunk_rest n (chunk_rest n xs @ ys)"
proof (induction n xs rule: chunk_rest.induct)
  case (1 n xs)
  show ?case
  proof (cases "length xs < n")
    case True
    then show ?thesis by simp
  next
    case False
    let ?a = "take n xs" and ?b = "drop n xs"
    have xs: "xs = ?a @ ?b" and a: "length ?a = n"
      using False by simp_all
    have "chunk_rest n (xs @ ys) = chunk_rest n (?b @ ys)"
      using "1.prems" a by (subst xs) (simp only: append.assoc chunk_rest_group)
    also have "\<dots> = chunk_rest n (chunk_rest n ?b @ ys)"
      using "1.IH" "1.prems" False by simp
    also have "\<dots> = chunk_rest n (chunk_rest n xs @ ys)"
      using "1.prems" a by (subst (2) xs) (simp only: chunk_rest_group)
    finally show ?thesis .
  qed
qed

lemma length_chunk_rest: "0 < n \<Longrightarrow> length (chunk_rest n bs) = length bs mod n"
proof (induction n bs rule: chunk_rest.induct)
  case (1 n bs)
  show ?case
  proof (cases "length bs < n")
    case True
    then show ?thesis by simp
  next
    case False
    then have "chunk_rest n bs = chunk_rest n (drop n bs)"
      using "1.prems" by (subst chunk_rest.simps) simp
    moreover have "length bs mod n = (length bs - n) mod n"
      using False by (simp add: le_mod_geq)
    ultimately show ?thesis
      using "1.IH" "1.prems" False by simp
  qed
qed

subsection \<open>Shifts, masks and byte groups\<close>

lemma push_bit_or_low:
  assumes "v < 2 ^ n"
  shows "push_bit n (a :: nat) OR v = a * 2 ^ n + v"
proof -
  have low: "i < n" if "bit v i" for i
    using that assms by (metis bit_take_bit_iff take_bit_nat_eq_self_iff)
  have "\<And>i. \<not> bit (push_bit n a) i \<or> \<not> bit v i"
    by (auto simp add: bit_push_bit_iff dest: low)
  then show ?thesis
    by (simp add: disjunctive_add push_bit_eq_mult)
qed

lemma and_low_mask:
  "(x :: nat) AND (2 ^ n - 1) = x mod 2 ^ n"
  "(x :: nat) AND (2 ^ n - Suc 0) = x mod 2 ^ n"
  by (metis mask_eq_exp_minus_1 take_bit_eq_mask take_bit_eq_mod One_nat_def)+

lemma bytes_of_bits_long:
  "8 \<le> length xs \<Longrightarrow> bytes_of_bits (xs @ ys) = of_nat (bits_val (take 8 xs)) # bytes_of_bits (drop 8 xs @ ys)"
  by (subst bytes_of_bits.simps) simp

lemma chunk_rest_long:
  "0 < n \<Longrightarrow> n \<le> length xs \<Longrightarrow> chunk_rest n (xs @ ys) = chunk_rest n (drop n xs @ ys)"
  by (subst chunk_rest.simps) simp

lemma bytes_of_bits_chunks: "bytes_of_bits bs = map of_nat (chunk_vals 8 bs)"
proof (induction bs rule: bytes_of_bits.induct)
  case (1 bs)
  then show ?case
    by (subst bytes_of_bits.simps, subst chunk_vals.simps) simp
qed

lemma length_bytes_of_bits: "length (bytes_of_bits bs) = length bs div 8"
  by (simp add: bytes_of_bits_chunks length_chunk_vals)

lemma bytes_of_bits_take:
  "take (length xs div 8) (bytes_of_bits (xs @ ys)) = bytes_of_bits xs"
  unfolding bytes_of_bits_chunks by (subst chunk_vals_append) (simp_all add: length_chunk_vals take_map)

lemma length_concat_to_bits: "length (concat (map (to_bits bt \<circ> f) vs)) = length vs * bt"
  by (induction vs) simp_all

lemma length_concat_map_to_bits: "length (concat (map (\<lambda>x. to_bits bt (f x)) vs)) = length vs * bt"
  by (induction vs) simp_all


lemma and_masks:
  "(x :: nat) AND 0x1F = x mod 32" "(x :: nat) AND 0xF = x mod 16"
  "(x :: nat) AND 0x7 = x mod 8" "(x :: nat) AND 0x3F = x mod 64"
  using and_low_mask(1) [of x 5] and_low_mask(1) [of x 4] and_low_mask(1) [of x 3] and_low_mask(1) [of x 6]
  by simp_all

lemma mod_add_multiple: "(k :: nat) mod m = 0 \<Longrightarrow> x < m \<Longrightarrow> (k + x) mod m = x"
  by (metis add_0 mod_add_left_eq mod_less)

end
