(* ===== verification/Primitives.thy ===== *)
theory Primitives
  imports Prelude
begin

text \<open>
  The module-level helpers of \<open>src/index.ts\<close> (lines 3--26) and the error
  values of the whole program.  Every \<open>throw\<close> of the source is one
  constructor of \<open>steg_error\<close>, and every fallible operation of the model
  returns \<open>steg_error + 'a\<close> with \<open>Inl\<close> the exception.  The random source
  \<open>getRandomByte\<close> (a CSPRNG in the code) is an explicit source of bytes
  (\<open>rng\<close>) that the operations consume, so the codec's results are stated for
  every random source.
\<close>

unbundle bit_operations_syntax

datatype steg_error =
    BitsOutOfRange          \<comment> \<open>validateBits\<close>
  | NameLength              \<comment> \<open>RawFile.createHeader: name not 1..255 bytes\<close>
  | RequiredLengthTooSmall  \<comment> \<open>RawFile.packWithPadding\<close>
  | EmptyPackedName         \<comment> \<open>RawFile.fromPacked: name length byte is 0\<close>
  | RangeError              \<comment> \<open>DataView read past the end, negative typed-array length\<close>
  | CantHide                \<comment> \<open>StegImage.hideBlob: data larger than capacity\<close>
  | NeedMoreRandomBits      \<comment> \<open>hideBlob leftover loop, i > 7\<close>
  | BufBitsMismatch         \<comment> \<open>hideBlob: bufBits !== bitsTaken after the leftover\<close>
  | CursorMismatch          \<comment> \<open>hideBlob: channelId !== channelsLen\<close>
  | NoContext               \<comment> \<open>hideBlob: canvas.getContext returned null\<close>
  | VerifyMismatch          \<comment> \<open>hideBlob: re-decoded pixels differ\<close>
  | EncryptedSizeMismatch   \<comment> \<open>StegImage.hide: ciphertext length differs from capacity\<close>
  | DecryptFailed           \<comment> \<open>aes.decrypt rejects the ciphertext\<close>
  | InvalidContext          \<comment> \<open>StegImage.createCanvas: canvas.getContext returned null\<close>

definition ENCRYPTED_METADATA_SIZE :: nat where
  "ENCRYPTED_METADATA_SIZE = 28"

definition validateBits :: "int \<Rightarrow> steg_error + unit" where
  "validateBits b = (if 1 \<le> b \<and> b \<le> 8 then Inr () else Inl BitsOutOfRange)"

definition clearBits :: "nat \<Rightarrow> nat \<Rightarrow> nat" where
  "clearBits n bits = push_bit bits (drop_bit bits n)"

definition readBit :: "nat \<Rightarrow> nat \<Rightarrow> nat" where
  "readBit byte pos = drop_bit (7 - pos) byte AND 1"

definition isAlpha :: "nat \<Rightarrow> bool" where
  "isAlpha pixel \<longleftrightarrow> pixel mod 4 = 3"

definition getRandomByte :: "rng \<Rightarrow> byte \<times> rng" where
  "getRandomByte r = (r 0, \<lambda>i. r (Suc i))"

subsection \<open>Properties of the helpers\<close>

lemma validateBits_ok [simp]: "validateBits b = Inr u \<longleftrightarrow> 1 \<le> b \<and> b \<le> 8"
  by (simp add: validateBits_def)

lemma validateBits_err [simp]: "validateBits b = Inl e \<longleftrightarrow> e = BitsOutOfRange \<and> \<not> (1 \<le> b \<and> b \<le> 8)"
  by (auto simp add: validateBits_def)

lemma readBit_eq: "pos \<le> 7 \<Longrightarrow> readBit byte pos = of_bool (bit byte (7 - pos))"
  by (simp add: readBit_def and_one_eq bit_iff_odd_drop_bit mod2_eq_if)

lemma readBit_less: "readBit byte pos < 2"
  by (simp add: readBit_def and_one_eq)

lemma readBit_to_bits:
  "pos < 8 \<Longrightarrow> readBit byte pos = of_bool (to_bits 8 byte ! pos)"
  by (simp add: readBit_eq nth_to_bits)

lemma clearBits_or:
  assumes "v < 2 ^ bits"
  shows "clearBits n bits OR v = 2 ^ bits * (n div 2 ^ bits) + v"
proof -
  have low: "i < bits" if "bit v i" for i
    using that assms by (metis bit_take_bit_iff take_bit_nat_eq_self_iff)
  have "\<And>i. \<not> bit (push_bit bits (drop_bit bits n)) i \<or> \<not> bit v i"
    by (auto simp add: bit_push_bit_iff dest: low)
  then have "push_bit bits (drop_bit bits n) OR v = push_bit bits (drop_bit bits n) + v"
    by (simp add: disjunctive_add)
  then show ?thesis
    by (simp add: clearBits_def push_bit_eq_mult drop_bit_eq_div ac_simps)
qed

lemma clearBits_or_low:
  "v < 2 ^ bits \<Longrightarrow> (clearBits n bits OR v) mod 2 ^ bits = v"
  by (simp add: clearBits_or)

lemma clearBits_or_byte:
  assumes "n < 256" "v < 2 ^ bits" "bits \<le> 8"
  shows "clearBits n bits OR v < 256"
proof -
  have pw: "(2::nat) ^ bits * 2 ^ (8 - bits) = 256"
    using assms(3) by (simp flip: power_add)
  have "n div 2 ^ bits < 2 ^ (8 - bits)"
    using assms(1) pw by (simp add: div_less_iff_less_mult ac_simps)
  then have "Suc (n div 2 ^ bits) \<le> 2 ^ (8 - bits)"
    by simp
  then have "2 ^ bits * Suc (n div 2 ^ bits) \<le> (256::nat)"
    using pw by (metis mult_le_mono2)
  then show ?thesis
    using assms(2) by (simp add: clearBits_or)
qed

lemma isAlpha_Suc_cases: "\<not> isAlpha c \<Longrightarrow> isAlpha (Suc c) \<Longrightarrow> \<not> isAlpha (Suc (Suc c))"
  by (simp add: isAlpha_def mod_Suc split: if_splits)

lemma readBit_7: "readBit x 7 = x mod 2"
  by (simp add: readBit_def and_one_eq)

end
