(* ===== verification/Reader.thy ===== *)
theory Reader
  imports Capacity
begin

text \<open>
  The reading side of the channel cursor, \<open>StegImage.revealBitsTaken\<close> and
  \<open>StegImage.revealBlob\<close> (\<open>src/index.ts\<close> lines 370--409).  The loop state of
  \<open>revealBlob\<close> (\<open>buf\<close>, \<open>bufBits\<close>, the output array \<open>out\<close> and \<open>outPos\<close>) is
  the record \<open>rstate\<close>; the body of the loop that shifts one channel's low bits
  into the buffer and emits a byte once eight bits are there is
  \<open>pushChannel\<close>, and the loop over the channels, skipping alpha, is
  \<open>revealLoop\<close>.  \<open>buf\<close> is a natural number: \<open>Reader_Correct\<close> shows that it
  stays below \<open>2 ^ 15\<close>, so the 32-bit shifts of the source never overflow.
\<close>

unbundle bit_operations_syntax

definition revealBitsTaken :: "bytes \<Rightarrow> steg_error + int" where
  "revealBitsTaken chs =
     (let bit0 = push_bit 2 (readBit (js_get chs 0) 7);
          bit1 = push_bit 1 (readBit (js_get chs 1) 7);
          bit2 = readBit (js_get chs 2) 7;
          bitsTaken = 1 + int (bit0 OR bit1 OR bit2)
      in sbind (validateBits bitsTaken) (\<lambda>_. Inr bitsTaken))"

record rstate =
  r_buf :: nat
  r_bufBits :: nat
  r_out :: bytes
  r_outPos :: nat

definition pushChannel :: "nat \<Rightarrow> nat \<Rightarrow> rstate \<Rightarrow> rstate" where
  "pushChannel bitsTaken value st =
     (let buf = push_bit bitsTaken (r_buf st) OR value;
          bufBits = r_bufBits st + bitsTaken
      in if 8 \<le> bufBits
         then (let leftBits = bufBits - 8
               in \<lparr>r_buf = buf AND (2 ^ leftBits - 1), r_bufBits = leftBits,
                   r_out = (r_out st)[r_outPos st := of_nat (drop_bit leftBits buf)],
                   r_outPos = Suc (r_outPos st)\<rparr>)
         else st\<lparr>r_buf := buf, r_bufBits := bufBits\<rparr>)"

function revealLoop :: "bytes \<Rightarrow> nat \<Rightarrow> nat \<Rightarrow> rstate \<Rightarrow> rstate" where
  "revealLoop chs bitsTaken channelId st =
     (if channelId < length chs
      then (let channelId = (if isAlpha channelId then Suc channelId else channelId);
                mask = 2 ^ bitsTaken - 1
            in revealLoop chs bitsTaken (Suc channelId)
                 (pushChannel bitsTaken (js_get chs channelId AND mask) st))
      else st)"
  by pat_completeness auto
termination
  by (relation "measure (\<lambda>(chs, b, c, st). length chs - c)") auto

definition revealBlob :: "bytes \<Rightarrow> steg_error + bytes" where
  "revealBlob chs =
     sbind (revealBitsTaken chs) (\<lambda>bitsTaken.
       sbind (calcCapacity (length chs) bitsTaken) (\<lambda>c.
         (let bytes = cap_bytes c
          in if bytes < 0 then Inl RangeError
             else Inr (r_out (revealLoop chs (nat bitsTaken) 4
                    \<lparr>r_buf = 0, r_bufBits = 0, r_out = replicate (nat bytes) 0, r_outPos = 0\<rparr>)))))"

declare revealLoop.simps [simp del]

end
