(* ===== verification/Writer.thy ===== *)
theory Writer
  imports Capacity
begin

text \<open>
  \<open>StegImage.hideBlob\<close> (\<open>src/index.ts\<close> lines 254--368), the channel cursor
  that writes.  The closure state of the source (\<open>channels\<close>, \<open>channelId\<close>,
  \<open>buf\<close>, \<open>bufBits\<close>, and the random source it draws from) is the record
  \<open>wstate\<close>; \<open>writeChannel\<close> is the inner function, and each loop of the
  source is one recursive definition: \<open>writeHeader\<close> (line 287),
  \<open>pushBit\<close>/\<open>writeByte\<close>/\<open>writePayload\<close> (lines 293--310), \<open>fillLeftover\<close>
  and \<open>flushLeftover\<close> (lines 313--329), \<open>fillRest\<close> (lines 331--335).  The
  canvas round trip of lines 343--358 is an external function \<open>canvas\<close> that
  returns the pixels read back after \<open>putImageData\<close>, or \<open>None\<close> when
  \<open>getContext\<close> fails; the array kind \<open>k\<close> says whether the buffer clamps
  (\<open>ImageData.data\<close>) or wraps (\<open>Uint8Array\<close>, as in the repository's tests)
  when the alpha sentinel 256 is stored.
\<close>

unbundle bit_operations_syntax

record wstate =
  channels :: bytes
  channelId :: nat
  buf :: nat
  bufBits :: nat
  rnd :: rng

definition writeChannel :: "array_kind \<Rightarrow> nat \<Rightarrow> nat \<Rightarrow> wstate \<Rightarrow> wstate" where
  "writeChannel k data bits s =
     (let cid = channelId s;
          curr = js_get (channels s) cid;
          chs = (channels s)[cid := store_byte k (clearBits curr bits OR data)];
          cid = Suc cid
      in if isAlpha cid then s\<lparr>channels := chs[cid := store_byte k 256], channelId := Suc cid\<rparr>
         else s\<lparr>channels := chs, channelId := cid\<rparr>)"

lemma writeChannel_channelId_gt: "channelId s < channelId (writeChannel k d b s)"
  by (simp add: writeChannel_def Let_def)

function writeHeader :: "array_kind \<Rightarrow> nat \<Rightarrow> wstate \<Rightarrow> wstate" where
  "writeHeader k bitsTaken s =
     (if channelId s < 3
      then writeHeader k bitsTaken (writeChannel k (readBit (bitsTaken - 1) (8 - 3 + channelId s)) 1 s)
      else s)"
  by pat_completeness auto
termination
  by (relation "measure (\<lambda>(k, b, s). 3 - channelId s)")
     (simp_all add: diff_less_mono2 writeChannel_channelId_gt)

definition pushBit :: "array_kind \<Rightarrow> nat \<Rightarrow> nat \<Rightarrow> wstate \<Rightarrow> wstate" where
  "pushBit k bitsTaken bitValue s =
     (let s = s\<lparr>buf := push_bit 1 (buf s) OR bitValue, bufBits := Suc (bufBits s)\<rparr>
      in if bufBits s = bitsTaken
         then (writeChannel k (buf s) bitsTaken s)\<lparr>buf := 0, bufBits := 0\<rparr>
         else s)"

definition writeByte :: "array_kind \<Rightarrow> nat \<Rightarrow> nat \<Rightarrow> wstate \<Rightarrow> wstate" where
  "writeByte k bitsTaken hiddenDataByte s =
     fold (\<lambda>bitPos. pushBit k bitsTaken (readBit hiddenDataByte bitPos)) [0..<8] s"

definition writePayload :: "array_kind \<Rightarrow> nat \<Rightarrow> bytes \<Rightarrow> wstate \<Rightarrow> wstate" where
  "writePayload k bitsTaken hData s = fold (\<lambda>byte. writeByte k bitsTaken (unat byte)) hData s"

function fillLeftover :: "nat \<Rightarrow> nat \<Rightarrow> nat \<Rightarrow> wstate \<Rightarrow> steg_error + wstate" where
  "fillLeftover randomByte leftoverBits i s =
     (if i < leftoverBits
      then (if i > 7 then Inl NeedMoreRandomBits
            else (let randomBit = readBit randomByte i
                  in fillLeftover randomByte leftoverBits (Suc i)
                       (s\<lparr>buf := push_bit 1 (buf s) OR randomBit, bufBits := Suc (bufBits s)\<rparr>)))
      else Inr s)"
  by pat_completeness auto
termination
  by (relation "measure (\<lambda>(r, n, i, s). n - i)") auto

definition flushLeftover :: "array_kind \<Rightarrow> nat \<Rightarrow> wstate \<Rightarrow> steg_error + wstate" where
  "flushLeftover k bitsTaken s =
     (if bufBits s \<noteq> 0
      then (let (randomByte, r) = getRandomByte (rnd s);
                s = s\<lparr>rnd := r\<rparr>;
                leftoverBits = bitsTaken - bufBits s
            in sbind (fillLeftover (unat randomByte) leftoverBits 0 s) (\<lambda>s.
                 if bufBits s \<noteq> bitsTaken then Inl BufBitsMismatch
                 else Inr (writeChannel k (buf s) bitsTaken s)))
      else Inr s)"

function fillRest :: "array_kind \<Rightarrow> nat \<Rightarrow> nat \<Rightarrow> wstate \<Rightarrow> wstate" where
  "fillRest k bitsTaken channelsLen s =
     (if channelId s < channelsLen
      then (let (randomByte, r) = getRandomByte (rnd s);
                bitsTakenMask = 2 ^ bitsTaken - 1
            in fillRest k bitsTaken channelsLen
                 (writeChannel k (unat randomByte AND bitsTakenMask) bitsTaken (s\<lparr>rnd := r\<rparr>)))
      else s)"
  by pat_completeness auto
termination
  by (relation "measure (\<lambda>(k, b, n, s). n - channelId s)")
     (auto simp add: getRandomByte_def writeChannel_def Let_def)

definition verifyCanvas :: "(bytes \<Rightarrow> bytes option) \<Rightarrow> bytes \<Rightarrow> steg_error + bytes" where
  "verifyCanvas canvas chs =
     (case canvas chs of
        None \<Rightarrow> Inl NoContext
      | Some vchannels \<Rightarrow>
          (if list_all (\<lambda>i. i < length vchannels \<and> vchannels ! i = chs ! i) [0..<length chs]
           then Inr chs else Inl VerifyMismatch))"

definition hideBlob ::
  "array_kind \<Rightarrow> (bytes \<Rightarrow> bytes option) \<Rightarrow> rng \<Rightarrow> bytes \<Rightarrow> int \<Rightarrow> bytes \<Rightarrow> steg_error + bytes" where
  "hideBlob k canvas rng chs bitsTaken hData =
     (let channelsLen = length chs; hDataLen = length hData
      in sbind (validateBits bitsTaken) (\<lambda>_.
         sbind (calcCapacity channelsLen bitsTaken) (\<lambda>c.
           (let cap = cap_bytes c
            in if int hDataLen > cap then Inl CantHide
               else
                 (let bt = nat bitsTaken;
                      s = \<lparr>channels = chs, channelId = 0, buf = 0, bufBits = 0, rnd = rng\<rparr>;
                      s = writeHeader k bt s;
                      s = writePayload k bt hData s
                  in sbind (flushLeftover k bt s) (\<lambda>s.
                       (let s = fillRest k bt channelsLen s
                        in if channelId s \<noteq> channelsLen then Inl CursorMismatch
                           else verifyCanvas canvas (channels s))))))))"

declare writeHeader.simps [simp del] fillLeftover.simps [simp del] fillRest.simps [simp del]

end
