(* ===== verification/Writer_Loops.thy ===== *)
theory Writer_Loops
  imports Writer
begin

text \<open>
  The loops of \<open>hideBlob\<close> as runs of channel writes.  The RGB channels of the buffer, in order, sit at
  the data positions \<open>dpos j = 4 * (j div 3) + j mod 3\<close>; \<open>writeChannel\<close> at
  data position \<open>j\<close> moves the cursor to data position \<open>j + 1\<close>, blanking the
  alpha channel it steps over.  A run of \<open>writeChannel\<close> calls is \<open>writeVals\<close>;
  every loop of \<open>hideBlob\<close> is shown equal to a \<open>writeVals\<close> run (the header, the
  bit accumulator of the payload and its random completion), so the final
  buffer is described position by position.
\<close>

unbundle bit_operations_syntax

definition dpos :: "nat \<Rightarrow> nat" where
  "dpos j = 4 * (j div 3) + j mod 3"

definition writeVals :: "array_kind \<Rightarrow> nat \<Rightarrow> nat list \<Rightarrow> wstate \<Rightarrow> wstate" where
  "writeVals k b vs s = fold (\<lambda>v. writeChannel k v b) vs s"

definition pend :: "wstate \<Rightarrow> bool list" where
  "pend s = to_bits (bufBits s) (buf s)"

named_theorems wstate_frame "fields a cursor operation leaves alone"

text \<open>The random bits that complete the last payload channel.\<close>

definition leftover_bits :: "nat \<Rightarrow> bool list \<Rightarrow> byte \<Rightarrow> bool list" where
  "leftover_bits bt p r = (if p = [] then [] else take (bt - length p) (to_bits 8 (unat r)))"

subsection \<open>Data positions\<close>

lemma dpos_not_alpha [simp]: "\<not> isAlpha (dpos j)"
  by (simp add: dpos_def isAlpha_def)

lemma dpos_split: "r < 3 \<Longrightarrow> dpos (3 * q + r) = 4 * q + r"
  by (simp add: dpos_def)

lemma dpos_next:
  "(if isAlpha (Suc (dpos j)) then Suc (Suc (dpos j)) else Suc (dpos j)) = dpos (Suc j)"
proof -
  have "j mod 3 = 0 \<or> j mod 3 = 1 \<or> j mod 3 = 2"
    by arith
  moreover have "Suc j div 3 = (if j mod 3 = 2 then Suc (j div 3) else j div 3)"
    and "Suc j mod 3 = (if j mod 3 = 2 then 0 else Suc (j mod 3))"
    by (simp_all add: div_Suc mod_Suc)
  ultimately show ?thesis
    by (auto simp add: dpos_def isAlpha_def)
qed

lemma dpos_Suc_gt: "dpos j < dpos (Suc j)"
  using dpos_next [of j] by (auto split: if_splits)

lemma dpos_strict_mono: "i < j \<Longrightarrow> dpos i < dpos j"
  by (rule strict_monoD [of dpos]) (simp_all add: strict_mono_Suc_iff dpos_Suc_gt)

lemma dpos_mono_iff [simp]: "dpos i < dpos j \<longleftrightarrow> i < j"
  by (metis dpos_strict_mono not_less_iff_gr_or_eq order_less_asym)

lemma dpos_inj [simp]: "dpos i = dpos j \<longleftrightarrow> i = j"
  by (metis dpos_mono_iff nat_neq_iff)

lemma dpos_less_rgba: "dpos j < 4 * m \<longleftrightarrow> j < 3 * m"
proof -
  have lin: "\<And>a r. r < (3::nat) \<Longrightarrow> 4 * a + r < 4 * m \<longleftrightarrow> a < m"
    by presburger
  have "j div 3 < m \<longleftrightarrow> j < 3 * m"
    by (simp add: div_less_iff_less_mult mult.commute)
  then show ?thesis
    using lin [of "j mod 3" "j div 3"] by (simp add: dpos_def)
qed

lemma dpos_rgba_end: "dpos (3 * m) = 4 * m"
  by (simp add: dpos_def)

lemma dpos_small [simp]: "dpos 0 = 0" "dpos 1 = 1" "dpos 2 = 2" "dpos 3 = 4"
  by (simp_all add: dpos_def)

subsection \<open>One channel write\<close>

lemma writeChannel_channelId:
  "channelId (writeChannel k d b s) =
     (if isAlpha (Suc (channelId s)) then Suc (Suc (channelId s)) else Suc (channelId s))"
  by (simp add: writeChannel_def Let_def)

lemma writeChannel_dpos:
  assumes "channelId s = dpos j"
  shows "channelId (writeChannel k d b s) = dpos (Suc j)"
  by (simp only: writeChannel_channelId assms dpos_next)

lemma writeChannel_frame [wstate_frame]:
  "buf (writeChannel k d b s) = buf s"
  "bufBits (writeChannel k d b s) = bufBits s"
  "rnd (writeChannel k d b s) = rnd s"
  "length (channels (writeChannel k d b s)) = length (channels s)"
  by (simp_all add: writeChannel_def Let_def)

lemma writeChannel_upd:
  "writeChannel k d b (s\<lparr>buf := x, bufBits := y\<rparr>) = (writeChannel k d b s)\<lparr>buf := x, bufBits := y\<rparr>"
  "writeChannel k d b (s\<lparr>rnd := r\<rparr>) = (writeChannel k d b s)\<lparr>rnd := r\<rparr>"
  by (simp_all add: writeChannel_def Let_def)

lemma writeChannel_other:
  assumes "p \<noteq> channelId s" and "isAlpha (Suc (channelId s)) \<longrightarrow> p \<noteq> Suc (channelId s)"
  shows "js_get (channels (writeChannel k d b s)) p = js_get (channels s) p"
  using assms by (auto simp add: writeChannel_def Let_def)

lemma writeChannel_below:
  "p < channelId s \<Longrightarrow> js_get (channels (writeChannel k d b s)) p = js_get (channels s) p"
  by (rule writeChannel_other) simp_all

lemma writeChannel_same:
  assumes "channelId s < length (channels s)" "d < 2 ^ b" "b \<le> 8"
  shows "js_get (channels (writeChannel k d b s)) (channelId s)
           = 2 ^ b * (js_get (channels s) (channelId s) div 2 ^ b) + d"
proof -
  let ?c = "channelId s" and ?ch = "channels s"
  have lt: "clearBits (js_get ?ch ?c) b OR d < 256"
    using assms js_get_less by (simp add: clearBits_or_byte)
  have "js_get ((?ch[?c := store_byte k (clearBits (js_get ?ch ?c) b OR d)])) ?c
        = clearBits (js_get ?ch ?c) b OR d"
    using assms(1) lt by (simp add: js_get_update_same)
  then show ?thesis
    using assms(2) by (simp add: writeChannel_def Let_def clearBits_or)
qed

lemma writeChannel_alpha:
  assumes "isAlpha (Suc (channelId s))" "Suc (channelId s) < length (channels s)"
  shows "js_get (channels (writeChannel k d b s)) (Suc (channelId s)) = unat (store_byte k 256)"
  using assms by (simp add: writeChannel_def Let_def js_get_update_same)

subsection \<open>Runs of channel writes\<close>

lemma writeVals_Nil [simp]: "writeVals k b [] s = s"
  by (simp add: writeVals_def)

lemma writeVals_Cons: "writeVals k b (v # vs) s = writeVals k b vs (writeChannel k v b s)"
  by (simp add: writeVals_def)

lemma writeVals_append: "writeVals k b (vs @ ws) s = writeVals k b ws (writeVals k b vs s)"
  by (simp add: writeVals_def)

lemma writeVals_frame [wstate_frame]:
  "buf (writeVals k b vs s) = buf s"
  "bufBits (writeVals k b vs s) = bufBits s"
  "rnd (writeVals k b vs s) = rnd s"
  "length (channels (writeVals k b vs s)) = length (channels s)"
  by (induction vs arbitrary: s) (simp_all add: writeVals_Cons writeChannel_frame)

lemma writeVals_upd:
  "writeVals k b vs (s\<lparr>buf := x, bufBits := y\<rparr>) = (writeVals k b vs s)\<lparr>buf := x, bufBits := y\<rparr>"
  by (induction vs arbitrary: s) (simp_all add: writeVals_Cons writeChannel_upd)

lemma writeVals_channelId:
  "channelId s = dpos j \<Longrightarrow> channelId (writeVals k b vs s) = dpos (j + length vs)"
  by (induction vs arbitrary: s j) (simp_all add: writeVals_Cons writeChannel_dpos)

lemma writeVals_channelId_ge: "channelId s \<le> channelId (writeVals k b vs s)"
proof (induction vs arbitrary: s)
  case Nil
  then show ?case by simp
next
  case (Cons v vs)
  then show ?case
    using writeChannel_channelId_gt [of s k v b] by (simp add: writeVals_Cons) (meson le_trans less_imp_le)
qed

lemma writeVals_below:
  "p < channelId s \<Longrightarrow> js_get (channels (writeVals k b vs s)) p = js_get (channels s) p"
proof (induction vs arbitrary: s)
  case Nil
  then show ?case by simp
next
  case (Cons v vs)
  have "p < channelId (writeChannel k v b s)"
    using Cons.prems writeChannel_channelId_gt [of s k v b] by simp
  then show ?case
    using Cons by (simp add: writeVals_Cons writeChannel_below)
qed

text \<open>The value a run leaves at each data position it wrote: the old high
  bits, and the written value in the low \<open>b\<close> bits.\<close>

lemma writeVals_data:
  assumes "channelId s = dpos j" "\<forall>v \<in> set vs. v < 2 ^ b" "b \<le> 8"
      and "dpos (j + length vs) \<le> length (channels s)"
      and "i < length vs"
  shows "js_get (channels (writeVals k b vs s)) (dpos (j + i))
           = 2 ^ b * (js_get (channels s) (dpos (j + i)) div 2 ^ b) + vs ! i"
  using assms
proof (induction vs arbitrary: s j i)
  case Nil
  then show ?case by simp
next
  case (Cons v vs)
  let ?s1 = "writeChannel k v b s"
  have c1: "channelId ?s1 = dpos (Suc j)"
    using Cons.prems(1) by (rule writeChannel_dpos)
  have "dpos j < dpos (j + length (v # vs))"
    by simp
  then have inb: "dpos j < length (channels s)"
    using Cons.prems(4) by (rule order_less_le_trans)
  show ?case
  proof (cases i)
    case 0
    have "js_get (channels (writeVals k b vs ?s1)) (dpos j) = js_get (channels ?s1) (dpos j)"
      using c1 by (simp add: writeVals_below)
    also have "\<dots> = 2 ^ b * (js_get (channels s) (dpos j) div 2 ^ b) + v"
      using writeChannel_same [of s v b k] Cons.prems inb by simp
    finally show ?thesis using 0 by (simp add: writeVals_Cons)
  next
    case (Suc i')
    have "js_get (channels (writeVals k b vs ?s1)) (dpos (Suc j + i'))
          = 2 ^ b * (js_get (channels ?s1) (dpos (Suc j + i')) div 2 ^ b) + vs ! i'"
      using Cons.IH [OF c1] Cons.prems Suc by (simp add: writeChannel_frame)
    moreover have "js_get (channels ?s1) (dpos (Suc j + i')) = js_get (channels s) (dpos (Suc j + i'))"
    proof (rule writeChannel_other)
      show "dpos (Suc j + i') \<noteq> channelId s"
        using Cons.prems(1) by simp
      show "isAlpha (Suc (channelId s)) \<longrightarrow> dpos (Suc j + i') \<noteq> Suc (channelId s)"
        by (metis dpos_not_alpha)
    qed
    ultimately show ?thesis using Suc by (simp add: writeVals_Cons)
  qed
qed

subsection \<open>The header loop\<close>

lemma writeHeader_step:
  "channelId s < 3 \<Longrightarrow>
   writeHeader k bt s = writeHeader k bt (writeChannel k (readBit (bt - 1) (5 + channelId s)) 1 s)"
  by (subst writeHeader.simps) simp

lemma writeHeader_stop: "\<not> channelId s < 3 \<Longrightarrow> writeHeader k bt s = s"
  by (subst writeHeader.simps) simp

lemma writeHeader_run:
  assumes "channelId s = dpos j" "j \<le> 3"
  shows "writeHeader k bt s = writeVals k 1 (map (\<lambda>c. readBit (bt - 1) (5 + c)) [j..<3]) s"
  using assms(2,1)
proof (induction j arbitrary: s rule: inc_induct)
  case base
  then show ?case by (simp add: writeHeader_stop)
next
  case (step n)
  have n: "channelId s = n"
    using step.prems step.hyps(2) by (simp add: dpos_def)
  have "writeHeader k bt s = writeHeader k bt (writeChannel k (readBit (bt - 1) (5 + n)) 1 s)"
    using n step.hyps(2) by (simp add: writeHeader_step)
  also have "\<dots> = writeVals k 1 (map (\<lambda>c. readBit (bt - 1) (5 + c)) [Suc n..<3])
                      (writeChannel k (readBit (bt - 1) (5 + n)) 1 s)"
    using step.IH writeChannel_dpos [OF step.prems] by blast
  also have "\<dots> = writeVals k 1 (map (\<lambda>c. readBit (bt - 1) (5 + c)) [n..<3]) s"
    using step.hyps(2) by (simp add: upt_conv_Cons writeVals_Cons)
  finally show ?case .
qed

subsection \<open>The payload loop: a bit accumulator\<close>

lemma push_or_bit: "push_bit 1 (x :: nat) OR of_bool b = 2 * x + of_bool b"
proof (cases b)
  case True
  have "2 * x OR 1 = 2 * x + of_bool (even (2 * x))"
    by (rule or_one_eq)
  with True show ?thesis by (simp add: push_bit_eq_mult mult.commute)
next
  case False
  then show ?thesis by (simp add: push_bit_eq_mult)
qed

lemma to_bits_push: "to_bits (Suc n) (2 * x + of_bool b) = to_bits n x @ [b]"
proof -
  have "to_bits (n + 1) (x * 2 ^ 1 + of_bool b) = to_bits n x @ to_bits 1 (of_bool b)"
    by (rule to_bits_shift_add) simp
  moreover have "to_bits 1 (of_bool b) = [b]"
    by (cases b) (simp_all add: bit_iff_odd)
  ultimately show ?thesis
    by (simp only: Suc_eq_plus1 power_one_right mult.commute)
qed

lemma pend_push:
  "pend (s\<lparr>buf := 2 * buf s + of_bool b, bufBits := Suc (bufBits s)\<rparr>) = pend s @ [b]"
  unfolding pend_def by (simp del: to_bits.simps add: to_bits_push)

lemma length_pend [simp]: "length (pend s) = bufBits s"
  by (simp add: pend_def)

lemma bits_val_pend: "buf s < 2 ^ bufBits s \<Longrightarrow> bits_val (pend s) = buf s"
  by (simp add: pend_def)

lemma pushBit_eq:
  "pushBit k bt (of_bool b) s =
     (if Suc (bufBits s) = bt
      then (writeChannel k (2 * buf s + of_bool b) bt s)\<lparr>buf := 0, bufBits := 0\<rparr>
      else s\<lparr>buf := 2 * buf s + of_bool b, bufBits := Suc (bufBits s)\<rparr>)"
  unfolding pushBit_def Let_def push_or_bit by (simp add: writeChannel_upd)

lemma pushBits_fold:
  assumes "buf s < 2 ^ bufBits s" "bufBits s < bt"
  shows "fold (\<lambda>b. pushBit k bt (of_bool b)) bs s =
           (writeVals k bt (chunk_vals bt (pend s @ bs)) s)
             \<lparr>buf := bits_val (chunk_rest bt (pend s @ bs)),
              bufBits := length (chunk_rest bt (pend s @ bs))\<rparr>"
  using assms
proof (induction bs arbitrary: s)
  case Nil
  then show ?case by (simp add: bits_val_pend)
next
  case (Cons b bs)
  let ?v = "2 * buf s + of_bool b"
  have v: "?v < 2 ^ Suc (bufBits s)"
    using Cons.prems(1) by (cases b) simp_all
  have app: "pend s @ b # bs = (pend s @ [b]) @ bs"
    by simp
  show ?case
  proof (cases "Suc (bufBits s) = bt")
    case True
    let ?s1 = "(writeChannel k ?v bt s)\<lparr>buf := 0, bufBits := 0\<rparr>"
    have p1: "pend ?s1 = []"
      by (simp add: pend_def)
    have g: "length (pend s @ [b]) = bt" "0 < bt"
      using True by (simp_all add: pend_def)
    have bv: "bits_val (pend s @ [b]) = ?v"
      using Cons.prems(1) by (simp add: bits_val_append bits_val_pend)
    have "fold (\<lambda>b. pushBit k bt (of_bool b)) (b # bs) s = fold (\<lambda>b. pushBit k bt (of_bool b)) bs ?s1"
      using True by (simp add: pushBit_eq)
    also have "\<dots> = (writeVals k bt (chunk_vals bt bs) ?s1)
                   \<lparr>buf := bits_val (chunk_rest bt bs), bufBits := length (chunk_rest bt bs)\<rparr>"
      using Cons.IH [of ?s1] g by (simp add: p1)
    also have "\<dots> = (writeVals k bt (chunk_vals bt (pend s @ b # bs)) s)
                   \<lparr>buf := bits_val (chunk_rest bt (pend s @ b # bs)),
                    bufBits := length (chunk_rest bt (pend s @ b # bs))\<rparr>"
      by (simp only: app chunk_vals_group [OF g(2,1)] chunk_rest_group [OF g(2,1)] bv
          writeVals_Cons writeVals_upd) simp
    finally show ?thesis .
  next
    case False
    let ?s1 = "s\<lparr>buf := ?v, bufBits := Suc (bufBits s)\<rparr>"
    have "fold (\<lambda>b. pushBit k bt (of_bool b)) (b # bs) s = fold (\<lambda>b. pushBit k bt (of_bool b)) bs ?s1"
      using False by (simp add: pushBit_eq)
    also have "\<dots> = (writeVals k bt (chunk_vals bt (pend ?s1 @ bs)) ?s1)
                   \<lparr>buf := bits_val (chunk_rest bt (pend ?s1 @ bs)),
                    bufBits := length (chunk_rest bt (pend ?s1 @ bs))\<rparr>"
      using Cons.IH [of ?s1] v Cons.prems(2) False by simp
    also have "\<dots> = (writeVals k bt (chunk_vals bt (pend s @ b # bs)) s)
                   \<lparr>buf := bits_val (chunk_rest bt (pend s @ b # bs)),
                    bufBits := length (chunk_rest bt (pend s @ b # bs))\<rparr>"
      by (simp add: pend_push writeVals_upd)
    finally show ?thesis .
  qed
qed

lemma writeByte_bits:
  "writeByte k bt byte s = fold (\<lambda>b. pushBit k bt (of_bool b)) (to_bits 8 byte) s"
proof -
  have m: "map (readBit byte) [0..<8] = map of_bool (to_bits 8 byte)"
    by (rule nth_equalityI) (simp_all add: readBit_to_bits)
  have "fold (\<lambda>b. pushBit k bt (of_bool b)) (to_bits 8 byte) s
        = fold (pushBit k bt) (map of_bool (to_bits 8 byte)) s"
    by (simp add: fold_map comp_def)
  also have "\<dots> = fold (pushBit k bt) (map (readBit byte) [0..<8]) s"
    by (simp only: m)
  also have "\<dots> = writeByte k bt byte s"
    by (simp add: writeByte_def fold_map comp_def)
  finally show ?thesis ..
qed

lemma writePayload_bits:
  "writePayload k bt hData s = fold (\<lambda>b. pushBit k bt (of_bool b)) (bits_of_bytes hData) s"
  by (induction hData arbitrary: s)
     (simp_all add: writePayload_def bits_of_bytes_Cons writeByte_bits)

lemma writePayload_run:
  assumes "buf s < 2 ^ bufBits s" "bufBits s < bt"
  shows "writePayload k bt hData s =
           (writeVals k bt (chunk_vals bt (pend s @ bits_of_bytes hData)) s)
             \<lparr>buf := bits_val (chunk_rest bt (pend s @ bits_of_bytes hData)),
              bufBits := length (chunk_rest bt (pend s @ bits_of_bytes hData))\<rparr>"
  using assms by (simp add: writePayload_bits pushBits_fold)

subsection \<open>The leftover: completing the last channel with random bits\<close>

lemma fillLeftover_ok:
  assumes "n \<le> 8" "i \<le> n" "buf s < 2 ^ bufBits s"
  shows "fillLeftover r n i s =
           Inr (s\<lparr>buf := bits_val (pend s @ drop i (take n (to_bits 8 r))),
                  bufBits := bufBits s + (n - i)\<rparr>)"
  using assms
proof (induction r n i s rule: fillLeftover.induct)
  case (1 r n i s)
  show ?case
  proof (cases "i < n")
    case False
    then have "i = n"
      using "1.prems" by simp
    then show ?thesis
      using "1.prems" by (subst fillLeftover.simps) (simp add: pend_def)
  next
    case True
    let ?T = "to_bits 8 r"
    let ?s1 = "s\<lparr>buf := 2 * buf s + of_bool (?T ! i), bufBits := Suc (bufBits s)\<rparr>"
    have i7: "\<not> i > 7"
      using True "1.prems" by simp
    have "readBit r i = of_bool (?T ! i)"
      using True "1.prems" by (simp add: readBit_to_bits)
    then have rb: "push_bit 1 (buf s) OR readBit r i = 2 * buf s + of_bool (?T ! i)"
      by (simp only: push_or_bit)
    have inv: "buf ?s1 < 2 ^ bufBits ?s1"
      using "1.prems"(3) by (cases "?T ! i") simp_all
    have "fillLeftover r n i s = fillLeftover r n (Suc i) ?s1"
      using True i7 rb by (subst fillLeftover.simps) (simp add: Let_def)
    also have "\<dots> = Inr (?s1\<lparr>buf := bits_val (pend ?s1 @ drop (Suc i) (take n ?T)),
                               bufBits := bufBits ?s1 + (n - Suc i)\<rparr>)"
      using "1.IH" [OF True i7 refl] True "1.prems" rb inv by simp
    also have "pend ?s1 @ drop (Suc i) (take n ?T) = pend s @ drop i (take n ?T)"
      using True "1.prems" Cons_nth_drop_Suc [of i "take n ?T"] by (simp add: pend_push)
    finally show ?thesis
      using True by simp
  qed
qed

lemma flushLeftover_run:
  assumes "buf s < 2 ^ bufBits s" "bufBits s < bt" "bt \<le> 8"
  shows "\<exists>s'. flushLeftover k bt s = Inr s' \<and>
           channels s' = channels (writeVals k bt (chunk_vals bt (pend s @ leftover_bits bt (pend s) (rnd s 0))) s) \<and>
           channelId s' = channelId (writeVals k bt (chunk_vals bt (pend s @ leftover_bits bt (pend s) (rnd s 0))) s)"
proof (cases "bufBits s = 0")
  case True
  then show ?thesis
    using assms by (simp add: flushLeftover_def leftover_bits_def pend_def)
next
  case False
  let ?P = "take (bt - bufBits s) (to_bits 8 (unat (rnd s 0)))"
  let ?s1 = "s\<lparr>rnd := \<lambda>i. rnd s (Suc i)\<rparr>"
  let ?s2 = "?s1\<lparr>buf := bits_val (pend s @ ?P), bufBits := bt\<rparr>"
  have fl: "fillLeftover (unat (rnd s 0)) (bt - bufBits s) 0 ?s1 = Inr ?s2"
    using fillLeftover_ok [where n = "bt - bufBits s" and i = 0 and r = "unat (rnd s 0)" and s = ?s1] assms
    by (simp add: pend_def)
  have lp: "length (pend s @ ?P) = bt" "0 < bt"
    using assms by (simp_all add: pend_def)
  have ne: "pend s \<noteq> []"
    using False by (metis length_pend list.size(3))
  have "flushLeftover k bt s = Inr (writeChannel k (bits_val (pend s @ ?P)) bt ?s2)"
    using False fl by (simp add: flushLeftover_def getRandomByte_def)
  moreover have "leftover_bits bt (pend s) (rnd s 0) = ?P"
    using ne by (simp add: leftover_bits_def)
  moreover have "chunk_vals bt (pend s @ ?P) = [bits_val (pend s @ ?P)]"
    using chunk_vals_group [OF lp(2,1), of "[]"] lp by simp
  moreover have "channels (writeChannel k d bt ?s2) = channels (writeChannel k d bt s)"
    and "channelId (writeChannel k d bt ?s2) = channelId (writeChannel k d bt s)" for d
    by (simp_all add: writeChannel_def Let_def)
  ultimately show ?thesis
    by (simp add: writeVals_Cons del: length_pend)
qed

subsection \<open>The random fill\<close>

lemma fillRest_step:
  "channelId s < n \<Longrightarrow>
   fillRest k b n s =
     fillRest k b n (writeChannel k (unat (rnd s 0) AND (2 ^ b - 1)) b (s\<lparr>rnd := \<lambda>i. rnd s (Suc i)\<rparr>))"
  by (subst fillRest.simps) (simp add: getRandomByte_def)

lemma fillRest_stop: "\<not> channelId s < n \<Longrightarrow> fillRest k b n s = s"
  by (subst fillRest.simps) simp

lemma fillRest_frame [wstate_frame]:
  "length (channels (fillRest k b n s)) = length (channels s)"
proof (induction k b n s rule: fillRest.induct)
  case (1 k b n s)
  show ?case
  proof (cases "channelId s < n")
    case True
    then show ?thesis
      using "1.IH" [OF True] by (simp add: fillRest_step getRandomByte_def writeChannel_frame)
  next
    case False
    then show ?thesis by (simp add: fillRest_stop)
  qed
qed

lemma fillRest_below:
  "p < channelId s \<Longrightarrow> js_get (channels (fillRest k b n s)) p = js_get (channels s) p"
proof (induction k b n s rule: fillRest.induct)
  case (1 k b n s)
  show ?case
  proof (cases "channelId s < n")
    case False
    then show ?thesis by (simp add: fillRest_stop)
  next
    case True
    let ?s1 = "writeChannel k (unat (rnd s 0) AND (2 ^ b - 1)) b (s\<lparr>rnd := \<lambda>i. rnd s (Suc i)\<rparr>)"
    have "p < channelId ?s1"
      using "1.prems" by (simp add: writeChannel_channelId)
    then have "js_get (channels (fillRest k b n ?s1)) p = js_get (channels ?s1) p"
      using "1.IH" [OF True] by (simp add: getRandomByte_def)
    also have "\<dots> = js_get (channels s) p"
      using writeChannel_below [of p "s\<lparr>rnd := \<lambda>i. rnd s (Suc i)\<rparr>"] "1.prems" by simp
    finally show ?thesis
      using True by (simp add: fillRest_step)
  qed
qed

lemma fillRest_end:
  assumes "channelId s = dpos j" "dpos j \<le> n" "n = 4 * m"
  shows "channelId (fillRest k b n s) = n"
  using assms
proof (induction k b n s arbitrary: j rule: fillRest.induct)
  case (1 k b n s)
  show ?case
  proof (cases "channelId s < n")
    case False
    then show ?thesis
      using "1.prems" by (simp add: fillRest_stop)
  next
    case True
    let ?s1 = "writeChannel k (unat (rnd s 0) AND (2 ^ b - 1)) b (s\<lparr>rnd := \<lambda>i. rnd s (Suc i)\<rparr>)"
    have c1: "channelId ?s1 = dpos (Suc j)"
      using writeChannel_dpos [of "s\<lparr>rnd := \<lambda>i. rnd s (Suc i)\<rparr>" j] "1.prems" by simp
    have "j < 3 * m"
      using True "1.prems" by (simp add: dpos_less_rgba)
    then have "dpos (Suc j) \<le> n"
      using dpos_rgba_end [of m] dpos_mono_iff [of "Suc j" "3 * m"] "1.prems"(3)
      by (cases "Suc j = 3 * m") auto
    then have "channelId (fillRest k b n ?s1) = n"
      using "1.IH" [OF True] c1 "1.prems"(3) by (simp add: getRandomByte_def)
    then show ?thesis
      using True by (simp add: fillRest_step)
  qed
qed


subsection \<open>The buffer keeps its length\<close>

lemma writeHeader_frame [wstate_frame]:
  "length (channels (writeHeader k b s)) = length (channels s)"
proof (induction k b s rule: writeHeader.induct)
  case (1 k b s)
  then show ?case
    by (subst writeHeader.simps) (simp add: writeChannel_frame)
qed

lemma pushBit_frame [wstate_frame]:
  "length (channels (pushBit k b v s)) = length (channels s)"
  by (simp add: pushBit_def Let_def writeChannel_frame)

lemma writePayload_frame [wstate_frame]:
  "length (channels (writePayload k b hData s)) = length (channels s)"
proof -
  have "length (channels (writeByte k b x s)) = length (channels s)" for x s
    unfolding writeByte_def by (rule fold_keeps) (rule pushBit_frame)
  then show ?thesis
    unfolding writePayload_def by (rule fold_keeps)
qed

lemma fillLeftover_channels:
  "fillLeftover r n i s = Inr s' \<Longrightarrow> channels s' = channels s"
proof (induction r n i s rule: fillLeftover.induct)
  case (1 r n i s)
  then show ?case
    by (subst (asm) fillLeftover.simps) (auto simp add: Let_def split: if_splits)
qed

lemma flushLeftover_frame:
  "flushLeftover k b s = Inr s' \<Longrightarrow> length (channels s') = length (channels s)"
  by (auto simp add: flushLeftover_def Let_def sbind_eq_Inr getRandomByte_def writeChannel_frame
      split: if_splits dest!: fillLeftover_channels)

end
