(* ===== verification/Writer_Correct.thy ===== *)
theory Writer_Correct
  imports Writer_Loops
begin

text \<open>
  What \<open>hideBlob\<close> writes, assembled from the loop lemmas of \<open>Writer_Loops\<close>:
  the payload stream (\<open>payload_bits\<close>, \<open>payload_vals\<close>), the header values, the
  state after the header, payload and leftover (\<open>hide_written\<close>), the result of
  a successful \<open>hideBlob\<close> position by position, its error paths, and the frame
  invariant \<open>wframe\<close> every channel write preserves.
\<close>

unbundle bit_operations_syntax

text \<open>The payload bit stream of \<open>hideBlob\<close> (the data bits, most significant
  first, then the random bits that complete the last channel) and the values it
  writes into the data channels after the header, \<open>bitsTaken\<close> bits each; the
  header values; the initial cursor state and the state after the header,
  payload and leftover runs.\<close>

definition payload_bits :: "nat \<Rightarrow> bytes \<Rightarrow> byte \<Rightarrow> bool list" where
  "payload_bits bt hData r =
     bits_of_bytes hData @ leftover_bits bt (chunk_rest bt (bits_of_bytes hData)) r"

definition payload_vals :: "nat \<Rightarrow> bytes \<Rightarrow> byte \<Rightarrow> nat list" where
  "payload_vals bt hData r = chunk_vals bt (payload_bits bt hData r)"

definition header_vals :: "nat \<Rightarrow> nat list" where
  "header_vals bt = map (\<lambda>c. readBit (bt - 1) (5 + c)) [0..<3]"

definition hide_init :: "bytes \<Rightarrow> rng \<Rightarrow> wstate" where
  "hide_init chs rng = \<lparr>channels = chs, channelId = 0, buf = 0, bufBits = 0, rnd = rng\<rparr>"

definition hide_written :: "array_kind \<Rightarrow> bytes \<Rightarrow> rng \<Rightarrow> nat \<Rightarrow> bytes \<Rightarrow> wstate" where
  "hide_written k chs rng bt hData =
     writeVals k bt (payload_vals bt hData (rng 0)) (writeVals k 1 (header_vals bt) (hide_init chs rng))"

text \<open>The frame of a cursor state: same length as the input buffer \<open>chs0\<close>,
  cursor on a non-alpha channel, the bits above the low \<open>bt\<close> bits of every
  RGB channel as in \<open>chs0\<close>, the sentinel in every alpha channel behind the
  cursor.\<close>

definition wframe :: "array_kind \<Rightarrow> nat \<Rightarrow> bytes \<Rightarrow> wstate \<Rightarrow> bool" where
  "wframe k bt chs0 s \<longleftrightarrow>
     length (channels s) = length chs0 \<and> \<not> isAlpha (channelId s) \<and>
     (\<forall>i < length chs0. \<not> isAlpha i \<longrightarrow> js_get (channels s) i div 2 ^ bt = js_get chs0 i div 2 ^ bt) \<and>
     (\<forall>i < length chs0. isAlpha i \<and> i < channelId s \<longrightarrow> js_get (channels s) i = unat (store_byte k 256))"

subsection \<open>The whole of \<open>hideBlob\<close>\<close>

text \<open>The payload stream fills whole channels, and the runs of the loops
  compose to \<open>hide_written\<close>.\<close>

lemma payload_bits_rest:
  assumes "0 < bt" "bt \<le> 8"
  shows "chunk_rest bt (payload_bits bt hData r) = []"
proof -
  let ?B = "bits_of_bytes hData"
  let ?R = "chunk_rest bt ?B"
  have "chunk_rest bt (payload_bits bt hData r) = chunk_rest bt (?R @ leftover_bits bt ?R r)"
    using assms by (simp add: payload_bits_def chunk_rest_append [symmetric])
  also have "\<dots> = []"
  proof (cases "?R = []")
    case True
    then show ?thesis using assms by (simp add: leftover_bits_def)
  next
    case False
    have "length ?R < bt"
      using assms by (simp add: chunk_rest_less)
    then have "length (?R @ leftover_bits bt ?R r) = bt"
      using False assms by (simp add: leftover_bits_def)
    then show ?thesis
      using chunk_rest_group [of bt "?R @ leftover_bits bt ?R r" "[]"] assms by simp
  qed
  finally show ?thesis .
qed

lemma concat_payload_vals:
  "0 < bt \<Longrightarrow> bt \<le> 8 \<Longrightarrow> concat (map (to_bits bt) (payload_vals bt hData r)) = payload_bits bt hData r"
  using chunk_concat [of bt "payload_bits bt hData r"] payload_bits_rest [of bt hData r]
  by (simp add: payload_vals_def)

lemma length_leftover_bits:
  assumes "0 < bt" "bt \<le> 8" "length R < bt"
  shows "length (leftover_bits bt R r) < bt"
proof (cases "R = []")
  case True
  then show ?thesis using assms by (simp add: leftover_bits_def)
next
  case False
  then have "length (leftover_bits bt R r) = bt - length R"
    using assms by (simp add: leftover_bits_def)
  then show ?thesis
    using False assms by simp
qed

lemma length_payload_vals:
  assumes "0 < bt" "bt \<le> 8" "8 * length hData \<le> 3 * p * bt"
  shows "length (payload_vals bt hData r) \<le> 3 * p"
proof -
  let ?L = "leftover_bits bt (chunk_rest bt (bits_of_bytes hData)) r"
  let ?q = "length (payload_vals bt hData r)" and ?l = "length (payload_bits bt hData r)"
  have len: "?l = 8 * length hData + length ?L"
    by (simp add: payload_bits_def length_bits_of_bytes)
  have "?l mod bt = 0"
    using payload_bits_rest [of bt hData r] length_chunk_rest [of bt "payload_bits bt hData r"]
      assms by simp
  then have "?l div bt * bt = ?l"
    using div_mult_mod_eq [of ?l bt] by simp
  moreover have "?q = ?l div bt"
    unfolding payload_vals_def using assms(1) by (rule length_chunk_vals)
  ultimately have q: "?q * bt = 8 * length hData + length ?L"
    using len by simp
  have "length ?L < bt"
    using assms chunk_rest_less [of bt "bits_of_bytes hData"] by (simp add: length_leftover_bits)
  then have "?q * bt < (3 * p + 1) * bt"
    using q assms(3) by (simp add: algebra_simps)
  then have "?q < 3 * p + 1 \<and> 0 < bt"
    by (simp only: mult_less_cancel2)
  then show ?thesis
    by simp
qed

lemma payload_vals_split:
  "0 < bt \<Longrightarrow> chunk_vals bt (bits_of_bytes hData) @
     chunk_vals bt (chunk_rest bt (bits_of_bytes hData) @ leftover_bits bt (chunk_rest bt (bits_of_bytes hData)) r)
   = payload_vals bt hData r"
  unfolding payload_vals_def payload_bits_def by (rule chunk_vals_append [symmetric])

lemma hide_header_state:
  "writeHeader k bt (hide_init chs rng) = writeVals k 1 (header_vals bt) (hide_init chs rng)"
  using writeHeader_run [of "hide_init chs rng" 0 k bt] by (simp add: hide_init_def header_vals_def)

lemma hide_init_frame:
  "buf (writeVals k b vs (hide_init chs rng)) = 0"
  "bufBits (writeVals k b vs (hide_init chs rng)) = 0"
  "rnd (writeVals k b vs (hide_init chs rng)) = rng"
  "length (channels (writeVals k b vs (hide_init chs rng))) = length chs"
  by (simp_all add: writeVals_frame hide_init_def)

lemma hide_flush_state:
  assumes "0 < bt" "bt \<le> 8"
  shows "\<exists>s'. flushLeftover k bt (writePayload k bt hData (writeHeader k bt (hide_init chs rng))) = Inr s' \<and>
           channels s' = channels (hide_written k chs rng bt hData) \<and>
           channelId s' = channelId (hide_written k chs rng bt hData)"
proof -
  let ?s1 = "writeVals k 1 (header_vals bt) (hide_init chs rng)"
  let ?B = "bits_of_bytes hData"
  let ?R = "chunk_rest bt ?B"
  let ?s2 = "(writeVals k bt (chunk_vals bt ?B) ?s1)\<lparr>buf := bits_val ?R, bufBits := length ?R\<rparr>"
  have p1: "pend ?s1 = []"
    by (simp add: pend_def hide_init_frame)
  have w2: "writePayload k bt hData ?s1 = ?s2"
    using writePayload_run [of ?s1 bt k hData] assms p1 by (simp add: hide_init_frame)
  have lt: "length ?R < bt"
    using assms(1) by (rule chunk_rest_less)
  have p2: "pend ?s2 = ?R"
    by (simp add: pend_def to_bits_bits_val)
  have i2: "buf ?s2 < 2 ^ bufBits ?s2" "bufBits ?s2 < bt"
    using lt by (simp_all add: bits_val_less)
  have r2: "rnd ?s2 = rng"
    by (simp add: writeVals_frame hide_init_def)
  have wv: "writeVals k bt vs ?s2 = (writeVals k bt vs (writeVals k bt (chunk_vals bt ?B) ?s1))\<lparr>buf := bits_val ?R, bufBits := length ?R\<rparr>" for vs
    by (rule writeVals_upd)
  obtain s' where s': "flushLeftover k bt ?s2 = Inr s'"
    "channels s' = channels (writeVals k bt (chunk_vals bt (?R @ leftover_bits bt ?R (rng 0))) ?s2)"
    "channelId s' = channelId (writeVals k bt (chunk_vals bt (?R @ leftover_bits bt ?R (rng 0))) ?s2)"
    using flushLeftover_run [OF i2 assms(2), of k] p2 r2 by auto
  have hw: "hide_written k chs rng bt hData =
      writeVals k bt (chunk_vals bt (?R @ leftover_bits bt ?R (rng 0))) (writeVals k bt (chunk_vals bt ?B) ?s1)"
    unfolding hide_written_def payload_vals_split [OF assms(1), symmetric] by (rule writeVals_append)
  have "channels s' = channels (hide_written k chs rng bt hData)"
       "channelId s' = channelId (hide_written k chs rng bt hData)"
    using s'(2,3) unfolding hw wv by simp_all
  then show ?thesis
    using s'(1) w2 by (simp add: hide_header_state)
qed

lemma hide_written_channelId:
  "channelId (hide_written k chs rng bt hData) = dpos (3 + length (payload_vals bt hData (rng 0)))"
proof -
  have "channelId (writeVals k 1 (header_vals bt) (hide_init chs rng)) = dpos 3"
    using writeVals_channelId [of "hide_init chs rng" 0 k 1 "header_vals bt"]
    by (simp add: hide_init_def header_vals_def)
  then show ?thesis
    unfolding hide_written_def by (rule writeVals_channelId)
qed

lemma hide_fits:
  assumes "0 < bt" "bt \<le> 8" "8 * length hData \<le> 3 * p * bt"
  shows "dpos (3 + length (payload_vals bt hData r)) \<le> 4 * Suc p"
proof -
  have "3 + length (payload_vals bt hData r) \<le> 3 * Suc p"
    using length_payload_vals [OF assms] by simp
  then have "dpos (3 + length (payload_vals bt hData r)) \<le> dpos (3 * Suc p)"
    by (metis dpos_mono_iff le_eq_less_or_eq)
  then show ?thesis
    by (simp only: dpos_rgba_end)
qed

lemma hide_capacity_fits:
  "8 * n \<le> 3 * p * bt \<longleftrightarrow> \<not> int n > (int p * 3 * int bt) div 8"
proof -
  have "(int p * 3 * int bt) div 8 = int (3 * p * bt div 8)"
    by (simp add: zdiv_int mult.commute mult.left_commute)
  then have "\<not> int n > (int p * 3 * int bt) div 8 \<longleftrightarrow> n \<le> 3 * p * bt div 8"
    by linarith
  also have "\<dots> \<longleftrightarrow> n * 8 \<le> 3 * p * bt"
    by (rule less_eq_div_iff_mult_less_eq) simp
  finally show ?thesis
    by (simp add: mult.commute)
qed

lemma verifyCanvas_Inr: "verifyCanvas canvas cs = Inr out \<Longrightarrow> out = cs"
  by (simp add: verifyCanvas_def split: option.splits if_splits)

lemma verifyCanvas_Some [simp]: "verifyCanvas Some cs = Inr cs"
  by (simp add: verifyCanvas_def list_all_length)

lemma hideBlob_run:
  assumes "length chs = 4 * Suc p" "0 < bt" "bt \<le> 8" "8 * length hData \<le> 3 * p * bt"
  shows "\<exists>s'. channels s' = channels (hide_written k chs rng bt hData) \<and>
           channelId s' = channelId (hide_written k chs rng bt hData) \<and>
           hideBlob k canvas rng chs (int bt) hData = verifyCanvas canvas (channels (fillRest k bt (length chs) s'))"
proof -
  obtain s' where s': "flushLeftover k bt (writePayload k bt hData (writeHeader k bt (hide_init chs rng))) = Inr s'"
    "channels s' = channels (hide_written k chs rng bt hData)"
    "channelId s' = channelId (hide_written k chs rng bt hData)"
    using hide_flush_state [OF assms(2,3)] by blast
  have vb: "validateBits (int bt) = Inr ()"
    using assms(2,3) by (simp add: validateBits_def)
  have cap: "calcCapacity (length chs) (int bt) =
      Inr \<lparr>cap_bits = of_int (int p * 3 * int bt), cap_bytes = (int p * 3 * int bt) div 8\<rparr>"
    using calcCapacity_rgba [of "int bt" p] assms(1-3) by simp
  have fit: "\<not> int (length hData) > (int p * 3 * int bt) div 8"
    using assms(4) hide_capacity_fits by blast
  have "channelId (fillRest k bt (length chs) s') = length chs"
    using fillRest_end [of s' "3 + length (payload_vals bt hData (rng 0))" "length chs" "Suc p"]
      s'(3) hide_written_channelId hide_fits [OF assms(2-4)] assms(1) by simp
  then have "hideBlob k canvas rng chs (int bt) hData = verifyCanvas canvas (channels (fillRest k bt (length chs) s'))"
    using vb cap fit s'(1) by (simp add: hideBlob_def hide_init_def Let_def del: validateBits_ok)
  then show ?thesis
    using s'(2,3) by blast
qed

lemma hide_written_header:
  assumes "length chs = 4 * Suc p" "i < 3"
  shows "js_get (channels (hide_written k chs rng bt hData)) (dpos i) mod 2 = header_vals bt ! i"
proof -
  let ?s0 = "hide_init chs rng"
  let ?s1 = "writeVals k 1 (header_vals bt) ?s0"
  have c1: "channelId ?s1 = dpos 3"
    using writeVals_channelId [of ?s0 0 k 1 "header_vals bt"] by (simp add: hide_init_def header_vals_def)
  have "dpos i < channelId ?s1"
    using c1 assms(2) by (simp add: dpos_def)
  then have "js_get (channels (hide_written k chs rng bt hData)) (dpos i) = js_get (channels ?s1) (dpos i)"
    unfolding hide_written_def by (rule writeVals_below)
  also have "\<dots> = 2 * (js_get chs (dpos i) div 2) + header_vals bt ! i"
    using writeVals_data [of ?s0 0 "header_vals bt" 1 i k] assms
    by (simp add: hide_init_def header_vals_def readBit_less)
  finally show ?thesis
    using assms(2) by (simp add: header_vals_def readBit_less)
qed

lemma hide_written_payload:
  assumes "length chs = 4 * Suc p" "0 < bt" "bt \<le> 8" "8 * length hData \<le> 3 * p * bt"
      and "i < length (payload_vals bt hData (rng 0))"
  shows "js_get (channels (hide_written k chs rng bt hData)) (dpos (3 + i)) mod 2 ^ bt
           = payload_vals bt hData (rng 0) ! i"
proof -
  let ?s1 = "writeVals k 1 (header_vals bt) (hide_init chs rng)"
  let ?pv = "payload_vals bt hData (rng 0)"
  have c1: "channelId ?s1 = dpos 3"
    using writeVals_channelId [of "hide_init chs rng" 0 k 1 "header_vals bt"]
    by (simp add: hide_init_def header_vals_def)
  have lt: "\<forall>v \<in> set ?pv. v < 2 ^ bt"
    by (simp add: payload_vals_def chunk_vals_less)
  have len: "dpos (3 + length ?pv) \<le> length (channels ?s1)"
    using hide_fits [OF assms(2-4)] assms(1) by (simp add: writeVals_frame hide_init_def)
  have "js_get (channels (hide_written k chs rng bt hData)) (dpos (3 + i))
        = 2 ^ bt * (js_get (channels ?s1) (dpos (3 + i)) div 2 ^ bt) + ?pv ! i"
    unfolding hide_written_def using writeVals_data [OF c1 lt assms(3) len assms(5)] .
  moreover have "?pv ! i < 2 ^ bt"
    using lt assms(5) by simp
  ultimately show ?thesis
    by simp
qed

lemma hideBlob_Inr_params:
  assumes "hideBlob k canvas rng chs bitsTaken hData = Inr out" "length chs = 4 * Suc p"
  shows "1 \<le> bitsTaken \<and> bitsTaken \<le> 8 \<and> 8 * length hData \<le> 3 * p * nat bitsTaken"
proof -
  have v: "1 \<le> bitsTaken \<and> bitsTaken \<le> 8"
    using assms(1) by (cases "1 \<le> bitsTaken \<and> bitsTaken \<le> 8") (simp_all add: hideBlob_def validateBits_def)
  then have vb: "validateBits bitsTaken = Inr ()"
    by (simp add: validateBits_def)
  have cap: "calcCapacity (length chs) bitsTaken =
      Inr \<lparr>cap_bits = of_int (int p * 3 * bitsTaken), cap_bytes = (int p * 3 * bitsTaken) div 8\<rparr>"
    using calcCapacity_rgba [of bitsTaken p] assms(2) v by simp
  have "\<not> int (length hData) > (int p * 3 * bitsTaken) div 8"
    using assms(1) vb cap by (auto simp add: hideBlob_def Let_def simp del: validateBits_ok)
  moreover have "bitsTaken = int (nat bitsTaken)"
    using v by simp
  ultimately have "\<not> int (length hData) > (int p * 3 * int (nat bitsTaken)) div 8"
    by simp
  then show ?thesis
    using v hide_capacity_fits by blast
qed

lemma hideBlob_Some_fits:
  assumes "length chs = 4 * Suc p" "1 \<le> bitsTaken" "bitsTaken \<le> 8"
      and "8 * length hData \<le> 3 * p * nat bitsTaken"
  shows "\<exists>out. hideBlob k Some rng chs bitsTaken hData = Inr out"
proof -
  have bt: "bitsTaken = int (nat bitsTaken)" "0 < nat bitsTaken" "nat bitsTaken \<le> 8"
    using assms(2,3) by linarith+
  obtain s' where "hideBlob k Some rng chs (int (nat bitsTaken)) hData =
      verifyCanvas Some (channels (fillRest k (nat bitsTaken) (length chs) s'))"
    using hideBlob_run [OF assms(1) bt(2,3) assms(4)] by blast
  then show ?thesis
    using bt(1) by auto
qed

subsection \<open>The frame invariant\<close>

lemma div_low_update:
  assumes "b \<le> bt" "(d::nat) < 2 ^ b"
  shows "(2 ^ b * (x div 2 ^ b) + d) div 2 ^ bt = x div 2 ^ bt"
proof -
  have bt: "(2::nat) ^ bt = 2 ^ b * 2 ^ (bt - b)"
    using assms(1) by (simp flip: power_add)
  have "(2 ^ b * (x div 2 ^ b) + d) div 2 ^ b = x div 2 ^ b"
    using assms(2) by simp
  then show ?thesis
    unfolding bt by (simp add: div_mult2_eq)
qed

lemma writeChannel_wframe:
  assumes "wframe k bt chs0 s" "b \<le> bt" "d < 2 ^ b" "bt \<le> 8"
  shows "wframe k bt chs0 (writeChannel k d b s)"
proof -
  let ?c = "channelId s" and ?s' = "writeChannel k d b s"
  have len: "length (channels ?s') = length chs0"
    using assms(1) by (simp add: wframe_def writeChannel_frame)
  have na: "\<not> isAlpha (channelId ?s')"
    using assms(1) isAlpha_Suc_cases [of ?c] by (simp add: wframe_def writeChannel_channelId)
  have low: "js_get (channels ?s') i div 2 ^ bt = js_get chs0 i div 2 ^ bt"
    if i: "i < length chs0" "\<not> isAlpha i" for i
  proof (cases "i = ?c")
    case True
    have "js_get (channels ?s') ?c = 2 ^ b * (js_get (channels s) ?c div 2 ^ b) + d"
      using writeChannel_same [of s d b k] assms(1-4) i True by (simp add: wframe_def)
    then show ?thesis
      using True div_low_update [OF assms(2,3)] assms(1) i by (simp add: wframe_def)
  next
    case False
    then have "js_get (channels ?s') i = js_get (channels s) i"
      using i by (intro writeChannel_other) auto
    then show ?thesis
      using assms(1) i by (simp add: wframe_def)
  qed
  have alpha: "js_get (channels ?s') i = unat (store_byte k 256)"
    if i: "i < length chs0" "isAlpha i" "i < channelId ?s'" for i
  proof (cases "i < ?c")
    case True
    then have "js_get (channels ?s') i = js_get (channels s) i"
      by (rule writeChannel_below)
    then show ?thesis
      using assms(1) i True by (simp add: wframe_def)
  next
    case False
    have "i \<noteq> ?c"
      using i(2) assms(1) by (auto simp add: wframe_def)
    then have "i = Suc ?c \<and> isAlpha (Suc ?c)"
      using False i by (auto simp add: writeChannel_channelId less_Suc_eq split: if_splits)
    then show ?thesis
      using writeChannel_alpha [of s k d b] i assms(1) by (simp add: wframe_def)
  qed
  show ?thesis
    unfolding wframe_def using len na low alpha by blast
qed

lemma wframe_cong:
  "channels s' = channels s \<Longrightarrow> channelId s' = channelId s \<Longrightarrow> wframe k bt chs0 s' = wframe k bt chs0 s"
  by (simp add: wframe_def)

lemma writeVals_wframe:
  assumes "wframe k bt chs0 s" "b \<le> bt" "\<forall>v \<in> set vs. v < 2 ^ b" "bt \<le> 8"
  shows "wframe k bt chs0 (writeVals k b vs s)"
  using assms(1,3)
proof (induction vs arbitrary: s)
  case Nil
  then show ?case by simp
next
  case (Cons v vs)
  then show ?case
    using writeChannel_wframe [OF Cons.prems(1) assms(2) _ assms(4), of v] by (simp add: writeVals_Cons)
qed

lemma fillRest_wframe:
  assumes "wframe k bt chs0 s" "bt \<le> 8"
  shows "wframe k bt chs0 (fillRest k bt n s)"
  using assms
proof (induction k bt n s rule: fillRest.induct)
  case (1 k b n s)
  show ?case
  proof (cases "channelId s < n")
    case False
    then show ?thesis
      using "1.prems" by (simp add: fillRest_stop)
  next
    case True
    let ?s0 = "s\<lparr>rnd := \<lambda>i. rnd s (Suc i)\<rparr>"
    have "wframe k b chs0 ?s0"
      using "1.prems" wframe_cong [of ?s0 s] by simp
    then have "wframe k b chs0 (writeChannel k (unat (rnd s 0) AND (2 ^ b - 1)) b ?s0)"
      using "1.prems"(2) by (intro writeChannel_wframe) (simp_all add: and_low_mask)
    then show ?thesis
      using "1.IH" [OF True] True "1.prems"(2) by (simp add: fillRest_step getRandomByte_def)
  qed
qed

lemma hide_written_wframe:
  assumes "0 < bt" "bt \<le> 8"
  shows "wframe k bt chs (hide_written k chs rng bt hData)"
proof -
  have "wframe k bt chs (hide_init chs rng)"
    by (simp add: wframe_def hide_init_def isAlpha_def)
  moreover have "\<forall>v \<in> set (header_vals bt). v < 2 ^ 1"
    by (simp add: header_vals_def readBit_less)
  ultimately have "wframe k bt chs (writeVals k 1 (header_vals bt) (hide_init chs rng))"
    using assms by (intro writeVals_wframe) simp_all
  moreover have "\<forall>v \<in> set (payload_vals bt hData (rng 0)). v < 2 ^ bt"
    by (simp add: payload_vals_def chunk_vals_less)
  ultimately show ?thesis
    unfolding hide_written_def using assms(2) writeVals_wframe by blast
qed

subsection \<open>Error paths of \<open>hideBlob\<close>\<close>

lemma fillLeftover_Inl: "fillLeftover r n i s = Inl e \<Longrightarrow> e = NeedMoreRandomBits"
proof (induction r n i s rule: fillLeftover.induct)
  case (1 r n i s)
  then show ?case
    by (subst (asm) fillLeftover.simps) (auto simp add: Let_def split: if_splits)
qed

lemma hideBlob_Inl:
  "hideBlob k canvas rng chs bitsTaken hData = Inl e \<Longrightarrow>
   e \<in> {BitsOutOfRange, CantHide, NeedMoreRandomBits, BufBitsMismatch, CursorMismatch, NoContext, VerifyMismatch}"
  by (auto simp add: hideBlob_def flushLeftover_def verifyCanvas_def calcCapacity_Inl_iff sbind_def
      Let_def split: sum.splits if_splits option.splits prod.splits dest: fillLeftover_Inl)

lemma writeChannel_not_alpha:
  "\<not> isAlpha (channelId s) \<Longrightarrow> \<not> isAlpha (channelId (writeChannel k d b s))"
  using isAlpha_Suc_cases [of "channelId s"] by (simp add: writeChannel_channelId)

lemma fillRest_not_alpha:
  "\<not> isAlpha (channelId s) \<Longrightarrow> \<not> isAlpha (channelId (fillRest k b n s))"
proof (induction k b n s rule: fillRest.induct)
  case (1 k b n s)
  show ?case
  proof (cases "channelId s < n")
    case False
    then show ?thesis
      using "1.prems" by (simp add: fillRest_stop)
  next
    case True
    have "\<not> isAlpha (channelId (writeChannel k (unat (rnd s 0) AND (2 ^ b - 1)) b (s\<lparr>rnd := \<lambda>i. rnd s (Suc i)\<rparr>)))"
      using "1.prems" by (intro writeChannel_not_alpha) simp
    then show ?thesis
      using "1.IH" [OF True] True by (simp add: fillRest_step getRandomByte_def)
  qed
qed

lemma hideBlob_via_Some:
  "hideBlob k canvas rng chs bitsTaken hData =
     (case hideBlob k Some rng chs bitsTaken hData of Inl e \<Rightarrow> Inl e | Inr w \<Rightarrow> verifyCanvas canvas w)"
proof (cases "1 \<le> bitsTaken \<and> bitsTaken \<le> 8")
  case True
  then show ?thesis
    using calcCapacity_ok [of bitsTaken "length chs"]
    by (simp add: hideBlob_def sbind_def Let_def del: validateBits_ok split: sum.split)
next
  case False
  then have "validateBits bitsTaken = Inl BitsOutOfRange"
    by (simp add: validateBits_def)
  then show ?thesis
    by (simp add: hideBlob_def Let_def del: validateBits_err)
qed

subsection \<open>Properties of \<open>hideBlob\<close>\<close>

text \<open>C6: \<open>hideBlob\<close> returns on every RGBA buffer (length \<open>4 * (p + 1)\<close>) whose
  capacity holds the data, for every \<open>bitsTaken\<close> in 1..8 and every random source,
  when the canvas gives the pixels back; the buffer it returns has the length of
  the input.  (No loop diverges and no internal error is raised.)\<close>

theorem hideBlob_rgba_succeeds:
  assumes "length chs = 4 * Suc p" "1 \<le> bitsTaken" "bitsTaken \<le> 8"
      and "8 * length hData \<le> 3 * p * nat bitsTaken"
  shows "\<exists>out. hideBlob k Some rng chs bitsTaken hData = Inr out \<and> length out = length chs"
proof -
  define bt where "bt = nat bitsTaken"
  have bt: "bitsTaken = int bt" "0 < bt" "bt \<le> 8"
    using assms(2,3) unfolding bt_def by linarith+
  obtain s' where s': "channels s' = channels (hide_written k chs rng bt hData)"
    "hideBlob k Some rng chs (int bt) hData = verifyCanvas Some (channels (fillRest k bt (length chs) s'))"
    using hideBlob_run [OF assms(1) bt(2,3)] assms(4) bt_def by blast
  have "length (channels (fillRest k bt (length chs) s')) = length chs"
    using s'(1) by (simp add: fillRest_frame hide_written_def writeVals_frame hide_init_def)
  then show ?thesis
    using s'(2) bt(1) by simp
qed

theorem hideBlob_rgba_succeeds_witness:
  "length (replicate 16 (0 :: byte)) = 4 * Suc 3 \<and> (1::int) \<le> 1 \<and> (1::int) \<le> 8 \<and>
   8 * length [170 :: byte] \<le> 3 * 3 * nat 1 \<and>
   (\<exists>out. hideBlob Uint8Plain Some (\<lambda>_. 0) (replicate 16 0) 1 [170] = Inr out \<and> length out = 16)"
  using hideBlob_rgba_succeeds [of "replicate 16 0" 3 1 "[170]" Uint8Plain "\<lambda>_. 0"] by simp

text \<open>C10: data longer than the capacity \<open>floor(3 p bitsTaken / 8)\<close> of an
  RGBA buffer is rejected with \<open>CantHide\<close> before any channel is written.\<close>

theorem hideBlob_CantHide:
  assumes "length chs = 4 * Suc p" "1 \<le> bitsTaken" "bitsTaken \<le> 8"
      and "3 * p * nat bitsTaken < 8 * length hData"
  shows "hideBlob k canvas rng chs bitsTaken hData = Inl CantHide"
proof -
  define bt where "bt = nat bitsTaken"
  have bt: "bitsTaken = int bt"
    using assms(2) unfolding bt_def by linarith
  have vb: "validateBits bitsTaken = Inr ()"
    using assms(2,3) by (simp add: validateBits_def)
  have cap: "calcCapacity (length chs) bitsTaken =
      Inr \<lparr>cap_bits = of_int (int p * 3 * bitsTaken), cap_bytes = (int p * 3 * bitsTaken) div 8\<rparr>"
    using calcCapacity_rgba [of bitsTaken p] assms(1-3) by simp
  have "int (length hData) > (int p * 3 * int bt) div 8"
    using assms(4) hide_capacity_fits [of "length hData" p bt] unfolding bt_def by simp
  then show ?thesis
    using vb cap bt by (simp add: hideBlob_def del: validateBits_ok)
qed

theorem hideBlob_CantHide_witness:
  "length (replicate 8 (0 :: byte)) = 4 * Suc 1 \<and> (1::int) \<le> 1 \<and> (1::int) \<le> 8 \<and>
   3 * 1 * nat 1 < 8 * length [170 :: byte] \<and>
   hideBlob Uint8Plain Some (\<lambda>_. 0) (replicate 8 0) 1 [170] = Inl CantHide"
  using hideBlob_CantHide [of "replicate 8 0" 1 1 "[170]" Uint8Plain Some "\<lambda>_. 0"] by simp

text \<open>C12: the two defensive errors of the leftover code of \<open>hideBlob\<close> ("Need more
  than 7 random bits" and "bufBits !== bitsTaken") are unreachable: from every
  state the payload loop leaves (fewer than \<open>bitsTaken \<le> 8\<close> pending bits),
  the leftover step succeeds.\<close>

theorem flushLeftover_never_fails:
  assumes "buf s < 2 ^ bufBits s" "bufBits s < bt" "bt \<le> 8"
  shows "flushLeftover k bt s \<noteq> Inl NeedMoreRandomBits \<and> flushLeftover k bt s \<noteq> Inl BufBitsMismatch"
  using flushLeftover_run [OF assms, of k] by auto

theorem flushLeftover_never_fails_witness:
  "buf \<lparr>channels = [0, 0, 0], channelId = 0, buf = 1, bufBits = 1, rnd = \<lambda>_. 255\<rparr> <
     2 ^ bufBits \<lparr>channels = [0, 0, 0], channelId = 0, buf = 1, bufBits = 1, rnd = \<lambda>_. 255\<rparr> \<and>
   bufBits \<lparr>channels = [0, 0, 0], channelId = 0, buf = 1, bufBits = 1, rnd = \<lambda>_. 255\<rparr> < 8 \<and> (8::nat) \<le> 8 \<and>
   flushLeftover Uint8Plain 8 \<lparr>channels = [0, 0, 0], channelId = 0, buf = 1, bufBits = 1, rnd = \<lambda>_. 255\<rparr>
     \<noteq> Inl NeedMoreRandomBits"
  using flushLeftover_never_fails [of "\<lparr>channels = [0, 0, 0], channelId = 0, buf = 1, bufBits = 1, rnd = \<lambda>_. 255\<rparr>" 8 Uint8Plain]
  by simp

text \<open>C7: \<open>hideBlob\<close> changes only what it should: on an RGBA buffer the result has
  the input's length, every RGB channel keeps its bits above the low \<open>bitsTaken\<close>
  bits, and every alpha
  channel holds the sentinel \<open>256\<close> as the array stores it (255 in
  \<open>ImageData\<close>, 0 in a \<open>Uint8Array\<close>).\<close>

theorem hideBlob_changes_only_low_bits:
  assumes "hideBlob k canvas rng chs bitsTaken hData = Inr out" "length chs = 4 * Suc p"
  shows "length out = length chs \<and>
         (\<forall>i < length chs. \<not> isAlpha i \<longrightarrow> js_get out i div 2 ^ nat bitsTaken = js_get chs i div 2 ^ nat bitsTaken) \<and>
         (\<forall>i < length chs. isAlpha i \<longrightarrow> js_get out i = unat (store_byte k 256))"
proof -
  define bt where "bt = nat bitsTaken"
  have par: "1 \<le> bitsTaken" "bitsTaken \<le> 8" "8 * length hData \<le> 3 * p * bt"
    using hideBlob_Inr_params [OF assms] by (simp_all add: bt_def)
  then have bt: "bitsTaken = int bt" "0 < bt" "bt \<le> 8"
    unfolding bt_def by linarith+
  obtain s' where s': "channels s' = channels (hide_written k chs rng bt hData)"
    "channelId s' = channelId (hide_written k chs rng bt hData)"
    "hideBlob k canvas rng chs (int bt) hData = verifyCanvas canvas (channels (fillRest k bt (length chs) s'))"
    using hideBlob_run [OF assms(2) bt(2,3) par(3)] by blast
  have out: "out = channels (fillRest k bt (length chs) s')"
    using assms(1) s'(3) bt(1) verifyCanvas_Inr by metis
  have "wframe k bt chs s'"
    using hide_written_wframe [OF bt(2,3)] wframe_cong [OF s'(1,2)] by simp
  then have w: "wframe k bt chs (fillRest k bt (length chs) s')"
    using bt(3) by (rule fillRest_wframe)
  have "channelId (fillRest k bt (length chs) s') = length chs"
    using fillRest_end [of s' "3 + length (payload_vals bt hData (rng 0))" "length chs" "Suc p"]
      s'(2) hide_written_channelId hide_fits [OF bt(2,3) par(3)] assms(2) by simp
  then show ?thesis
    using w out by (simp add: wframe_def bt_def)
qed

theorem hideBlob_changes_only_low_bits_witness:
  "hideBlob Uint8Plain Some (\<lambda>_. 0) (replicate 16 255) 1 [170] =
     Inr [254, 254, 254, 0, 255, 254, 255, 0, 254, 255, 254, 0, 255, 254, 254, 0] \<and>
   length (replicate 16 (255 :: byte)) = 4 * Suc 3 \<and>
   js_get [254, 254, 254, 0, 255, 254, 255, 0, 254, 255, 254, 0, 255, 254, 254, 0] 6 div 2 ^ nat 1 =
     js_get (replicate 16 255) 6 div 2 ^ nat 1 \<and>
   js_get [254, 254, 254, 0, 255, 254, 255, 0, 254, 255, 254, 0, 255, 254, 254, 0] 7 =
     unat (store_byte Uint8Plain 256)"
proof -
  have h: "hideBlob Uint8Plain Some (\<lambda>_. 0) (replicate 16 255) 1 [170] =
     Inr [254, 254, 254, 0, 255, 254, 255, 0, 254, 255, 254, 0, 255, 254, 254, 0]"
    by code_simp
  have l: "length (replicate 16 (255 :: byte)) = 4 * Suc 3"
    by simp
  note c = hideBlob_changes_only_low_bits [OF h l]
  have "\<not> isAlpha 6" "isAlpha 7"
    by (simp_all add: isAlpha_def)
  then show ?thesis
    using h l c by simp
qed

text \<open>C13: on a buffer whose length is 3 modulo 4 (a partial last pixel ending
  just before its alpha channel), \<open>hideBlob\<close> never succeeds: with valid bits and
  data within the capacity it always ends with \<open>CursorMismatch\<close>, because the
  cursor only ever rests on non-alpha channels and so never equals the length.\<close>

theorem hideBlob_CursorMismatch:
  assumes "length chs mod 4 = 3" "1 \<le> bitsTaken" "bitsTaken \<le> 8"
      and "int (length hData) \<le> 3 * bitsTaken * (int (length chs) - 4) div 32"
  shows "hideBlob k canvas rng chs bitsTaken hData = Inl CursorMismatch"
proof -
  define bt where "bt = nat bitsTaken"
  have bt: "bitsTaken = int bt" "0 < bt" "bt \<le> 8"
    using assms(2,3) unfolding bt_def by linarith+
  have vb: "validateBits bitsTaken = Inr ()"
    using assms(2,3) by (simp add: validateBits_def)
  obtain s' where s': "flushLeftover k bt (writePayload k bt hData (writeHeader k bt (hide_init chs rng))) = Inr s'"
    "channelId s' = channelId (hide_written k chs rng bt hData)"
    using hide_flush_state [OF bt(2,3)] by blast
  have "\<not> isAlpha (channelId s')"
    using s'(2) by (simp add: hide_written_channelId)
  then have "\<not> isAlpha (channelId (fillRest k bt (length chs) s'))"
    by (rule fillRest_not_alpha)
  moreover have "isAlpha (length chs)"
    using assms(1) by (simp add: isAlpha_def)
  ultimately have "channelId (fillRest k bt (length chs) s') \<noteq> length chs"
    by auto
  then show ?thesis
    using vb s'(1) assms(4) calcCapacity_ok [OF assms(2,3), of "length chs"] bt(1)
    by (simp add: hideBlob_def hide_init_def Let_def del: validateBits_ok)
qed

theorem hideBlob_CursorMismatch_witness:
  "length (replicate 7 (0 :: byte)) mod 4 = 3 \<and> (1::int) \<le> 8 \<and> (8::int) \<le> 8 \<and>
   int (length [1 :: byte]) \<le> 3 * 8 * (int (length (replicate 7 (0 :: byte))) - 4) div 32 \<and>
   hideBlob Uint8Clamped Some (\<lambda>_. 0) (replicate 7 0) 8 [1] = Inl CursorMismatch"
  using hideBlob_CursorMismatch [of "replicate 7 0" 8 "[1]" Uint8Clamped Some "\<lambda>_. 0"] by simp


text \<open>C25: the random fill loop of \<open>hideBlob\<close> (lines 331--335) ends, started at
  any non-alpha position up to \<open>channelsLen\<close>, exactly at \<open>channelsLen\<close>, or
  one past it when \<open>channelsLen\<close> is itself an alpha position (the cursor
  steps over alpha channels, so it can never rest there).\<close>

theorem fillRest_exit:
  assumes "channelId s \<le> n" "\<not> isAlpha (channelId s)"
  shows "channelId (fillRest k b n s) = (if isAlpha n then Suc n else n)"
  using assms
proof (induction k b n s rule: fillRest.induct)
  case (1 k b n s)
  show ?case
  proof (cases "channelId s < n")
    case False
    then show ?thesis
      using "1.prems" by (simp add: fillRest_stop)
  next
    case True
    let ?s1 = "writeChannel k (unat (rnd s 0) AND (2 ^ b - 1)) b (s\<lparr>rnd := \<lambda>i. rnd s (Suc i)\<rparr>)"
    have na: "\<not> isAlpha (channelId ?s1)"
      using "1.prems"(2) by (intro writeChannel_not_alpha) simp
    have "channelId ?s1 \<le> (if isAlpha n then Suc n else n)"
      using True "1.prems"(2) isAlpha_Suc_cases [of "channelId s"]
      by (cases "Suc (channelId s) = n") (auto simp add: writeChannel_channelId isAlpha_def)
    then show ?thesis
    proof (cases "channelId ?s1 \<le> n")
      case le: True
      then show ?thesis
        using "1.IH" [OF True] na True by (simp add: fillRest_step getRandomByte_def)
    next
      case False
      then have "channelId ?s1 = Suc n" "isAlpha n"
        using \<open>channelId ?s1 \<le> _\<close> by (auto split: if_splits)
      then show ?thesis
        using True by (simp add: fillRest_step fillRest_stop)
    qed
  qed
qed

theorem fillRest_exit_witness:
  "channelId \<lparr>channels = replicate 8 (0 :: byte), channelId = 0, buf = 0, bufBits = 0, rnd = \<lambda>_. 0\<rparr> \<le> 7 \<and>
   \<not> isAlpha (channelId \<lparr>channels = replicate 8 (0 :: byte), channelId = 0, buf = 0, bufBits = 0, rnd = \<lambda>_. 0\<rparr>) \<and>
   channelId (fillRest Uint8Plain 1 7 \<lparr>channels = replicate 8 0, channelId = 0, buf = 0, bufBits = 0, rnd = \<lambda>_. 0\<rparr>) = 8"
  using fillRest_exit [of "\<lparr>channels = replicate 8 0, channelId = 0, buf = 0, bufBits = 0, rnd = \<lambda>_. 0\<rparr>" 7 Uint8Plain 1]
  by (simp add: isAlpha_def)

end
