(* ===== verification/Reader_Correct.thy ===== *)
theory Reader_Correct
  imports Reader Writer_Correct
begin

text \<open>
  What \<open>revealBlob\<close> reads.  The reader's loop state refines an abstract view
  \<open>rview\<close>: the pending bits of the buffer (most significant first), the output
  array and the output position; \<open>pushChannel\<close> refines the abstract step
  \<open>apush\<close>, which appends a channel's low bits and emits the first eight once
  there are eight.  A run of \<open>apush\<close> writes \<open>bytes_of_bits\<close> of the whole bit
  stream into the output array (\<open>write_at\<close>, writes past the end ignored as
  a \<open>Uint8Array\<close> ignores them).  The loop over the channels reads the data
  positions \<open>dpos 3, dpos 4, ...\<close> and, after the last alpha channel, the
  index \<open>length chs\<close>, which is \<open>undefined\<close> in the source and reads as 0.
  Together: \<open>revealBlob\<close> equals the functional \<open>reveal_spec\<close>.
\<close>

unbundle bit_operations_syntax

definition rpend :: "rstate \<Rightarrow> bool list" where
  "rpend st = to_bits (r_bufBits st) (r_buf st)"

definition rinv :: "rstate \<Rightarrow> bool" where
  "rinv st \<longleftrightarrow> r_buf st < 2 ^ r_bufBits st \<and> r_bufBits st < 8"

type_synonym rview = "bool list \<times> bytes \<times> nat"

definition rabs :: "rstate \<Rightarrow> rview" where
  "rabs st = (rpend st, r_out st, r_outPos st)"

definition apush :: "nat \<Rightarrow> nat \<Rightarrow> rview \<Rightarrow> rview" where
  "apush bt v = (\<lambda>(P, out, pos).
     (let Q = P @ to_bits bt v
      in if 8 \<le> length Q then (drop 8 Q, out[pos := of_nat (bits_val (take 8 Q))], Suc pos)
         else (Q, out, pos)))"

fun write_at :: "bytes \<Rightarrow> nat \<Rightarrow> bytes \<Rightarrow> bytes" where
  "write_at xs i [] = xs"
| "write_at xs i (b # bs) = write_at (xs[i := b]) (Suc i) bs"

definition rd :: "bytes \<Rightarrow> nat \<Rightarrow> nat \<Rightarrow> nat" where
  "rd chs bt j = js_get chs (dpos j) AND (2 ^ bt - 1)"

definition reveal_spec :: "bytes \<Rightarrow> nat \<Rightarrow> bytes" where
  "reveal_spec chs bt =
     bytes_of_bits (concat (map (\<lambda>j. to_bits bt (js_get chs (dpos j))) [3..<3 * (length chs div 4)]))"

lemma or_bits3:
  assumes "a < 2" "b < 2" "c < 2"
  shows "push_bit 2 (a :: nat) OR push_bit 1 b OR c = 4 * a + 2 * b + c"
proof -
  have "a = 0 \<or> a = 1" "b = 0 \<or> b = 1" "c = 0 \<or> c = 1"
    using assms by auto
  then show ?thesis
    by (elim disjE) simp_all
qed

lemma revealBitsTaken_eq:
  "revealBitsTaken chs =
     Inr (1 + int (4 * (js_get chs 0 mod 2) + 2 * (js_get chs 1 mod 2) + js_get chs 2 mod 2))"
proof -
  let ?v = "4 * (js_get chs 0 mod 2) + 2 * (js_get chs 1 mod 2) + js_get chs 2 mod 2"
  have "?v < 8"
    by simp
  then have vb: "validateBits (1 + int ?v) = Inr ()"
    by (simp add: validateBits_def)
  have "push_bit 2 (js_get chs 0 mod 2) OR push_bit 1 (js_get chs 1 mod 2) OR js_get chs 2 mod 2 = ?v"
    by (rule or_bits3) simp_all
  then show ?thesis
    unfolding revealBitsTaken_def Let_def readBit_7 using vb by (simp del: validateBits_ok)
qed

lemma pushChannel_refines:
  assumes "rinv st" "bt \<le> 8" "v < 2 ^ bt"
  shows "rinv (pushChannel bt v st) \<and> rabs (pushChannel bt v st) = apush bt v (rabs st)"
proof -
  let ?B = "r_buf st" and ?n = "r_bufBits st"
  let ?b1 = "?B * 2 ^ bt + v"
  have b1: "push_bit bt ?B OR v = ?b1"
    using assms(3) by (rule push_bit_or_low)
  have Q: "to_bits (?n + bt) ?b1 = rpend st @ to_bits bt v"
    using assms(3) by (simp add: rpend_def to_bits_shift_add)
  have "?b1 < 2 ^ (?n + bt)"
  proof -
    have "Suc ?B \<le> 2 ^ ?n"
      using assms(1) by (simp add: rinv_def)
    then have "Suc ?B * 2 ^ bt \<le> 2 ^ ?n * 2 ^ bt"
      by (rule mult_right_mono) simp
    then show ?thesis
      using assms(3) by (simp add: power_add)
  qed
  then have lt: "?b1 < 2 ^ (?n + bt)" .
  show ?thesis
  proof (cases "8 \<le> ?n + bt")
    case True
    define L where "L = ?n + bt - 8"
    have nL: "?n + bt = 8 + L"
      using True by (simp add: L_def)
    have L8: "L < 8"
      using assms(1,2) unfolding L_def rinv_def by linarith
    have hi: "?b1 div 2 ^ L < 256"
      using lt nL by (simp add: div_less_iff_less_mult power_add)
    have split: "rpend st @ to_bits bt v = to_bits 8 (?b1 div 2 ^ L) @ to_bits L ?b1"
      using Q nL by (simp add: to_bits_add)
    have "take 8 (rpend st @ to_bits bt v) = to_bits 8 (?b1 div 2 ^ L)"
         "drop 8 (rpend st @ to_bits bt v) = to_bits L (?b1 mod 2 ^ L)"
      using split by (simp_all add: to_bits_mod)
    moreover have "8 \<le> length (rpend st @ to_bits bt v)"
      using True by (simp add: rpend_def)
    ultimately show ?thesis
      using b1 nL L8 hi
      by (simp add: pushChannel_def Let_def rabs_def apush_def rpend_def rinv_def
          and_low_mask drop_bit_eq_div)
  next
    case False
    then show ?thesis
      using b1 Q lt by (simp add: pushChannel_def Let_def rabs_def apush_def rpend_def rinv_def)
  qed
qed

lemma write_at_beyond: "length xs \<le> i \<Longrightarrow> write_at xs i bs = xs"
  by (induction bs arbitrary: i) (simp_all add: list_update_beyond)

lemma write_at_eq:
  "i \<le> length xs \<Longrightarrow>
   write_at xs i bs = take i xs @ take (length xs - i) bs @ drop (i + length bs) xs"
proof (induction bs arbitrary: xs i)
  case Nil
  then show ?case by simp
next
  case (Cons b bs)
  show ?case
  proof (cases "i < length xs")
    case True
    then have "write_at xs i (b # bs) =
        take (Suc i) (xs[i := b]) @ take (length xs - Suc i) bs @ drop (Suc i + length bs) (xs[i := b])"
      using Cons.IH [of "Suc i" "xs[i := b]"] by simp
    moreover have "length xs - i = Suc (length xs - Suc i)"
      using True by simp
    ultimately show ?thesis
      using True by (simp add: take_Suc_conv_app_nth)
  next
    case False
    then show ?thesis
      using Cons.prems by (simp add: write_at_beyond list_update_beyond)
  qed
qed

lemma apush_fold:
  assumes "length P < 8" "bt \<le> 8"
  shows "fold (apush bt) vs (P, out, pos) =
           (let Q = P @ concat (map (to_bits bt) vs)
            in (chunk_rest 8 Q, write_at out pos (bytes_of_bits Q), pos + length (bytes_of_bits Q)))"
  using assms(1)
proof (induction vs arbitrary: P out pos)
  case Nil
  then show ?case by (simp add: bytes_of_bits_short)
next
  case (Cons v vs)
  let ?Q1 = "P @ to_bits bt v" and ?R = "concat (map (to_bits bt) vs)"
  show ?case
  proof (cases "8 \<le> length ?Q1")
    case True
    let ?b = "of_nat (bits_val (take 8 ?Q1)) :: byte"
    have ap: "apush bt v (P, out, pos) = (drop 8 ?Q1, out[pos := ?b], Suc pos)"
      using True unfolding apush_def Let_def by simp
    have "length (drop 8 ?Q1) < 8"
      using Cons.prems assms(2) by simp
    then have ih: "fold (apush bt) vs (drop 8 ?Q1, out[pos := ?b], Suc pos) =
        (chunk_rest 8 (drop 8 ?Q1 @ ?R), write_at (out[pos := ?b]) (Suc pos) (bytes_of_bits (drop 8 ?Q1 @ ?R)),
         Suc pos + length (bytes_of_bits (drop 8 ?Q1 @ ?R)))"
      using Cons.IH by (simp only: Let_def)
    have eq: "P @ concat (map (to_bits bt) (v # vs)) = ?Q1 @ ?R"
      by simp
    have cr: "chunk_rest 8 (?Q1 @ ?R) = chunk_rest 8 (drop 8 ?Q1 @ ?R)"
      using True by (intro chunk_rest_long) simp_all
    show ?thesis
      unfolding fold_simps ap ih Let_def eq bytes_of_bits_long [OF True] cr
      by simp
  next
    case False
    then show ?thesis
      using Cons.IH [of ?Q1] by (simp add: apush_def Let_def)
  qed
qed

lemma pushChannel_fold:
  assumes "rinv st" "bt \<le> 8" "\<forall>v \<in> set vs. v < 2 ^ bt"
  shows "rinv (fold (pushChannel bt) vs st) \<and>
         rabs (fold (pushChannel bt) vs st) = fold (apush bt) vs (rabs st)"
  using assms(1,3)
proof (induction vs arbitrary: st)
  case Nil
  then show ?case by simp
next
  case (Cons v vs)
  then show ?case
    using pushChannel_refines [OF Cons.prems(1) assms(2), of v] by simp
qed

lemma revealLoop_step:
  "c < length chs \<Longrightarrow>
   revealLoop chs bt c st =
     revealLoop chs bt (Suc (if isAlpha c then Suc c else c))
       (pushChannel bt (js_get chs (if isAlpha c then Suc c else c) AND (2 ^ bt - 1)) st)"
  by (subst revealLoop.simps) (simp only: if_True Let_def)

lemma revealLoop_stop: "\<not> c < length chs \<Longrightarrow> revealLoop chs bt c st = st"
  by (subst revealLoop.simps) simp



lemma dpos_Suc_less_rgba: "i < 3 * Suc p \<Longrightarrow> Suc (dpos i) < 4 * Suc p"
proof -
  assume i: "i < 3 * Suc p"
  then have "i div 3 < Suc p"
    by (simp add: div_less_iff_less_mult mult.commute)
  moreover have "i mod 3 < 3"
    by simp
  moreover have "\<And>a b. a < Suc p \<Longrightarrow> b < 3 \<Longrightarrow> Suc (4 * a + b) < 4 * Suc p"
    by simp
  ultimately show ?thesis
    unfolding dpos_def by blast
qed

lemma revealLoop_run:
  assumes "length chs = 4 * Suc p" "i \<le> 3 * p + 3"
  shows "revealLoop chs bt (Suc (dpos i)) st = fold (pushChannel bt) (map (rd chs bt) [Suc i..<3 * p + 4]) st"
  using assms(2)
proof (induction "3 * p + 3 - i" arbitrary: i st)
  case 0
  then have "i = 3 * Suc p"
    by simp
  then have "dpos i = 4 * Suc p"
    using dpos_rgba_end [of "Suc p"] by simp
  then have "\<not> Suc (dpos i) < length chs"
    using assms(1) by simp
  then show ?case
    using \<open>i = 3 * Suc p\<close> by (simp add: revealLoop_stop)
next
  case (Suc n)
  then have i: "i < 3 * Suc p"
    by simp
  have nx: "(if isAlpha (Suc (dpos i)) then Suc (Suc (dpos i)) else Suc (dpos i)) = dpos (Suc i)"
    by (rule dpos_next)
  have "revealLoop chs bt (Suc (dpos i)) st =
      revealLoop chs bt (Suc (dpos (Suc i))) (pushChannel bt (rd chs bt (Suc i)) st)"
    using dpos_Suc_less_rgba [OF i] assms(1) by (simp only: revealLoop_step nx rd_def)
  also have "\<dots> = fold (pushChannel bt) (map (rd chs bt) [Suc (Suc i)..<3 * p + 4]) (pushChannel bt (rd chs bt (Suc i)) st)"
    using Suc.hyps(1) [of "Suc i"] Suc.hyps(2) i by simp
  also have "\<dots> = fold (pushChannel bt) (map (rd chs bt) [Suc i..<3 * p + 4]) st"
    using i by (simp add: upt_conv_Cons)
  finally show ?case .
qed

lemma revealLoop_start:
  assumes "length chs = 4 * Suc p"
  shows "revealLoop chs bt 4 st = (if p = 0 then st else fold (pushChannel bt) (map (rd chs bt) [3..<3 * p + 4]) st)"
proof (cases "p = 0")
  case True
  then show ?thesis
    using assms by (simp add: revealLoop_stop)
next
  case False
  then have "4 < length chs"
    using assms by simp
  then have "revealLoop chs bt 4 st = revealLoop chs bt (Suc (dpos 3)) (pushChannel bt (rd chs bt 3) st)"
    by (simp add: revealLoop_step isAlpha_def rd_def)
  also have "\<dots> = fold (pushChannel bt) (map (rd chs bt) [3..<3 * p + 4]) st"
    using revealLoop_run [OF assms, of 3] by (simp add: upt_conv_Cons)
  finally show ?thesis
    using False by simp
qed

lemma to_bits_rd: "to_bits bt (rd chs bt j) = to_bits bt (js_get chs (dpos j))"
  by (simp add: rd_def and_low_mask to_bits_mod)

lemma rd_less: "rd chs bt j < 2 ^ bt"
  by (simp add: rd_def and_low_mask)

lemma revealLoop_out:
  assumes "length chs = 4 * Suc p" "0 < p" "bt \<le> 8" "3 * p * bt div 8 = n"
  shows "r_out (revealLoop chs bt 4 \<lparr>r_buf = 0, r_bufBits = 0, r_out = replicate n 0, r_outPos = 0\<rparr>)
           = reveal_spec chs bt"
proof -
  let ?st = "\<lparr>r_buf = 0, r_bufBits = 0, r_out = replicate n 0, r_outPos = 0\<rparr>"
  let ?vs = "map (rd chs bt) [3..<3 * p + 4]"
  let ?A = "concat (map (to_bits bt) (map (rd chs bt) [3..<3 * Suc p]))"
  let ?Q = "concat (map (to_bits bt) ?vs)"
  have st: "rinv ?st" "rabs ?st = ([], replicate n 0, 0)"
    by (simp_all add: rinv_def rabs_def rpend_def)
  have "rabs (fold (pushChannel bt) ?vs ?st) = fold (apush bt) ?vs ([], replicate n 0, 0)"
    using pushChannel_fold [OF st(1) assms(3), of ?vs] st(2) rd_less by auto
  then have "r_out (fold (pushChannel bt) ?vs ?st) = write_at (replicate n 0) 0 (bytes_of_bits ?Q)"
    using apush_fold [of "[]" bt ?vs "replicate n 0" 0] assms(3) by (simp add: rabs_def Let_def)
  also have "\<dots> = take n (bytes_of_bits ?Q)"
  proof -
    have "n \<le> length ?Q div 8"
      using assms(4) by (simp add: length_concat_to_bits div_le_mono)
    then show ?thesis
      by (simp add: write_at_eq length_bytes_of_bits)
  qed
  also have "\<dots> = bytes_of_bits ?A"
  proof -
    have "[3..<3 * p + 4] = [3..<3 * Suc p] @ [3 * Suc p]"
      using upt_Suc [of 3 "3 * Suc p"] by (simp add: add.commute)
    then have "?Q = ?A @ to_bits bt (rd chs bt (3 * Suc p))"
      by simp
    moreover have "length ?A div 8 = n"
      using assms(4) by (simp add: length_concat_to_bits mult.commute mult.left_commute)
    ultimately show ?thesis
      using bytes_of_bits_take [of ?A] by simp
  qed
  also have "\<dots> = reveal_spec chs bt"
    using assms(1) by (simp add: reveal_spec_def comp_def to_bits_rd)
  finally show ?thesis
    using revealLoop_start [OF assms(1)] assms(2) by simp
qed

theorem revealBlob_eq_spec:
  assumes "length chs = 4 * Suc p"
  shows "revealBlob chs = sbind (revealBitsTaken chs) (\<lambda>b. Inr (reveal_spec chs (nat b)))"
proof -
  let ?b = "1 + int (4 * (js_get chs 0 mod 2) + 2 * (js_get chs 1 mod 2) + js_get chs 2 mod 2)"
  have b: "1 \<le> ?b" "?b \<le> 8"
    by simp_all
  define bt where "bt = nat ?b"
  have bt: "?b = int bt" "0 < bt" "bt \<le> 8"
    using b unfolding bt_def by linarith+
  have cap: "calcCapacity (length chs) (int bt) =
      Inr \<lparr>cap_bits = of_int (int p * 3 * int bt), cap_bytes = (int p * 3 * int bt) div 8\<rparr>"
    using calcCapacity_rgba [of "int bt" p] assms bt(2,3) by simp
  have "(int p * 3 * int bt) div 8 = int (3 * p * bt div 8)"
    by (simp add: zdiv_int)
  then have n: "nat ((int p * 3 * int bt) div 8) = 3 * p * bt div 8"
    and nn: "\<not> (int p * 3 * int bt) div 8 < 0"
    by simp_all
  show ?thesis
  proof (cases "p = 0")
    case True
    then show ?thesis
      using assms cap bt(1) by (simp add: revealBlob_def revealBitsTaken_eq revealLoop_start reveal_spec_def bytes_of_bits_short)
  next
    case False
    then have "0 < p"
      by simp
    then show ?thesis
      using assms cap bt nn revealLoop_out [OF assms _ bt(3) n [symmetric]]
      by (simp add: revealBlob_def revealBitsTaken_eq n Let_def)
  qed
qed

subsection \<open>Properties of the reader\<close>

text \<open>C3: on an RGBA buffer, \<open>revealBlob\<close> equals its functional specification
  \<open>reveal_spec\<close>: with \<open>bitsTaken\<close> read from the low bits of channels 0..2, it
  returns the bytes formed by the low \<open>bitsTaken\<close> bits of the RGB channels from
  the second pixel on, most significant first, \<open>floor(3 p bitsTaken / 8)\<close> of
  them.\<close>

theorem revealBlob_refines_spec:
  assumes "length chs = 4 * Suc p"
  shows "revealBlob chs =
           Inr (reveal_spec chs (1 + 4 * (js_get chs 0 mod 2) + 2 * (js_get chs 1 mod 2) + js_get chs 2 mod 2))"
proof -
  have e: "nat (1 + int n) = 1 + n" for n
    by simp
  show ?thesis
    using revealBlob_eq_spec [OF assms] unfolding revealBitsTaken_eq sbind_Inr e by (simp only: add.assoc)
qed

theorem revealBlob_refines_spec_witness:
  "length [0, 0, 0, 0, 1, 0, 1, 0, 0, 1, 0, 0, 1, 0, 0, 0 :: byte] = 4 * Suc 3 \<and>
   revealBlob [0, 0, 0, 0, 1, 0, 1, 0, 0, 1, 0, 0, 1, 0, 0, 0] =
     Inr (reveal_spec [0, 0, 0, 0, 1, 0, 1, 0, 0, 1, 0, 0, 1, 0, 0, 0] 1)"
  using revealBlob_refines_spec [of "[0, 0, 0, 0, 1, 0, 1, 0, 0, 1, 0, 0, 1, 0, 0, 0]" 3]
  by (simp add: js_get_def)

text \<open>C8: the loop body of \<open>revealBlob\<close> refines the abstract bit-stream reader:
  from every state with fewer than 8 pending bits, running \<open>pushChannel\<close> over
  channel values of \<open>bitsTaken \<le> 8\<close> bits and then abstracting equals running the
  abstract step \<open>apush\<close> on the abstraction.\<close>

theorem reader_refines_abstract:
  assumes "rinv st" "bt \<le> 8" "\<forall>v \<in> set vs. v < 2 ^ bt"
  shows "rabs (fold (pushChannel bt) vs st) = fold (apush bt) vs (rabs st)"
  using pushChannel_fold [OF assms] by blast

text \<open>C9: the buffer of \<open>revealBlob\<close> stays small: it always holds fewer than 8
  bits, its value is below \<open>2 ^ bufBits\<close>, and the shifted value
  \<open>buf << bitsTaken\<close> of the next step is below \<open>2 ^ 15\<close>, so the 32-bit shift
  of the source never overflows and the natural-number model is exact.\<close>

theorem reader_buffer_bounds:
  assumes "rinv st" "bt \<le> 8" "\<forall>v \<in> set vs. v < 2 ^ bt"
  shows "r_buf (fold (pushChannel bt) vs st) < 2 ^ r_bufBits (fold (pushChannel bt) vs st) \<and>
         r_bufBits (fold (pushChannel bt) vs st) < 8 \<and>
         push_bit bt (r_buf (fold (pushChannel bt) vs st)) < 2 ^ 15"
proof -
  let ?s = "fold (pushChannel bt) vs st"
  have i: "r_buf ?s < 2 ^ r_bufBits ?s" "r_bufBits ?s < 8"
    using pushChannel_fold [OF assms] by (simp_all add: rinv_def)
  have "(2::nat) ^ r_bufBits ?s \<le> 2 ^ 7"
    using i(2) by (intro power_increasing) simp_all
  then have "r_buf ?s * 2 ^ bt < 2 ^ 7 * 2 ^ bt"
    using i(1) by (intro mult_strict_right_mono) simp_all
  also have "(2::nat) ^ 7 * 2 ^ bt \<le> 2 ^ 7 * 2 ^ 8"
    using assms(2) by (intro mult_left_mono power_increasing) simp_all
  finally have "r_buf ?s * 2 ^ bt < 2 ^ 15"
    by simp
  then show ?thesis
    using i by (simp add: push_bit_eq_mult)
qed

theorem reader_refines_abstract_witness:
  "rinv \<lparr>r_buf = 1, r_bufBits = 2, r_out = [0, 0], r_outPos = 0\<rparr> \<and> (3::nat) \<le> 8 \<and>
   (5::nat) < 2 ^ 3 \<and> (2::nat) < 2 ^ 3 \<and> (7::nat) < 2 ^ 3 \<and>
   rabs (fold (pushChannel 3) [5, 2, 7] \<lparr>r_buf = 1, r_bufBits = 2, r_out = [0, 0], r_outPos = 0\<rparr>) =
     fold (apush 3) [5, 2, 7] (rabs \<lparr>r_buf = 1, r_bufBits = 2, r_out = [0, 0], r_outPos = 0\<rparr>)"
  using reader_refines_abstract [of "\<lparr>r_buf = 1, r_bufBits = 2, r_out = [0, 0], r_outPos = 0\<rparr>" 3 "[5, 2, 7]"]
  by (simp add: rinv_def)

theorem reader_buffer_bounds_witness:
  "rinv \<lparr>r_buf = 1, r_bufBits = 2, r_out = [0, 0], r_outPos = 0\<rparr> \<and> (8::nat) \<le> 8 \<and>
   (255::nat) < 2 ^ 8 \<and> (3::nat) < 2 ^ 8 \<and>
   r_buf (fold (pushChannel 8) [255, 3] \<lparr>r_buf = 1, r_bufBits = 2, r_out = [0, 0], r_outPos = 0\<rparr>) <
     2 ^ r_bufBits (fold (pushChannel 8) [255, 3] \<lparr>r_buf = 1, r_bufBits = 2, r_out = [0, 0], r_outPos = 0\<rparr>)"
  using reader_buffer_bounds [of "\<lparr>r_buf = 1, r_bufBits = 2, r_out = [0, 0], r_outPos = 0\<rparr>" 8 "[255, 3]"]
  by (simp add: rinv_def)

text \<open>C14: \<open>revealBlob\<close> fails exactly on buffers shorter than one pixel, and then
  with \<open>RangeError\<close> (the negative capacity given to \<open>new Uint8Array\<close>); the header
  read never fails.\<close>

theorem revealBlob_Inl_iff:
  "(\<exists>e. revealBlob chs = Inl e) \<longleftrightarrow> length chs < 4 \<and> revealBlob chs = Inl RangeError"
proof -
  let ?b = "1 + int (4 * (js_get chs 0 mod 2) + 2 * (js_get chs 1 mod 2) + js_get chs 2 mod 2)"
  have b: "1 \<le> ?b" "?b \<le> 8"
    by simp_all
  have cap: "calcCapacity (length chs) ?b =
      Inr \<lparr>cap_bits = of_int (3 * ?b * (int (length chs) - 4)) / 4,
           cap_bytes = 3 * ?b * (int (length chs) - 4) div 32\<rparr>"
    using calcCapacity_ok [OF b] by simp
  have "3 * ?b * (int (length chs) - 4) div 32 < 0 \<longleftrightarrow> length chs < 4"
  proof
    assume "3 * ?b * (int (length chs) - 4) div 32 < 0"
    then have "3 * ?b * (int (length chs) - 4) < 0"
      by (simp add: div_neg_pos_less0 pos_imp_zdiv_neg_iff)
    then show "length chs < 4"
      using b by (simp add: mult_less_0_iff)
  next
    assume "length chs < 4"
    then have "3 * ?b * (int (length chs) - 4) < 0"
      using b by (simp add: mult_pos_neg)
    then show "3 * ?b * (int (length chs) - 4) div 32 < 0"
      by (simp add: pos_imp_zdiv_neg_iff)
  qed
  then show ?thesis
    using cap by (auto simp add: revealBlob_def revealBitsTaken_eq Let_def simp del: of_nat_add)
qed




end
