(* ===== verification/Roundtrip.thy ===== *)
theory Roundtrip
  imports Reader_Correct
begin

text \<open>
  The writer and the reader together.  \<open>header_vals_decode\<close>: the three header
  bits \<open>hideBlob\<close> writes decode, in \<open>revealBitsTaken\<close>, to \<open>bitsTaken\<close>.
  \<open>blob_roundtrip\<close>: whenever \<open>hideBlob\<close> succeeds on an RGBA buffer,
  \<open>revealBlob\<close> of the buffer it returns gives the hidden bytes back, followed
  by the random filler up to the capacity.
\<close>


lemma header_vals_decode:
  assumes "0 < bt" "bt \<le> 8"
  shows "4 * (header_vals bt ! 0) + 2 * (header_vals bt ! 1) + header_vals bt ! 2 = bt - 1"
proof -
  have "bt = 1 \<or> bt = 2 \<or> bt = 3 \<or> bt = 4 \<or> bt = 5 \<or> bt = 6 \<or> bt = 7 \<or> bt = 8"
    using assms by linarith
  then show ?thesis
    by (elim disjE) (simp_all add: header_vals_def readBit_def)
qed

lemma blob_roundtrip:
  assumes "hideBlob k canvas rng chs bitsTaken hData = Inr out" "length chs = 4 * Suc p"
  shows "\<exists>rest. revealBlob out = Inr (hData @ rest) \<and> length (hData @ rest) = 3 * p * nat bitsTaken div 8"
proof -
  define bt where "bt = nat bitsTaken"
  have par: "1 \<le> bitsTaken" "bitsTaken \<le> 8" "8 * length hData \<le> 3 * p * bt"
    using hideBlob_Inr_params [OF assms] by (simp_all add: bt_def)
  then have bt: "bitsTaken = int bt" "0 < bt" "bt \<le> 8"
    unfolding bt_def by linarith+
  let ?pv = "payload_vals bt hData (rng 0)" and ?hw = "hide_written k chs rng bt hData"
  obtain s' where s': "channels s' = channels ?hw" "channelId s' = channelId ?hw"
    "hideBlob k canvas rng chs (int bt) hData = verifyCanvas canvas (channels (fillRest k bt (length chs) s'))"
    using hideBlob_run [OF assms(2) bt(2,3) par(3)] by blast
  have out: "out = channels (fillRest k bt (length chs) s')"
    using assms(1) s'(3) bt(1) verifyCanvas_Inr by metis
  have len: "length out = 4 * Suc p"
    using out s'(1) assms(2) by (simp add: fillRest_frame hide_written_def writeVals_frame hide_init_def)
  have below: "js_get out x = js_get (channels ?hw) x" if "x < dpos (3 + length ?pv)" for x
    using that out s'(1,2) by (simp add: fillRest_below hide_written_channelId)
  have hdr: "js_get out (dpos i) mod 2 = header_vals bt ! i" if "i < 3" for i
  proof -
    have "dpos i < dpos (3 + length ?pv)"
      using that by simp
    then show ?thesis
      using below hide_written_header [OF assms(2) that] by simp
  qed
  have "4 * (js_get out 0 mod 2) + 2 * (js_get out 1 mod 2) + js_get out 2 mod 2 = bt - 1"
    using hdr [of 0] hdr [of 1] hdr [of 2] header_vals_decode [OF bt(2,3)] by (simp only: dpos_small)
  then have rbt: "revealBitsTaken out = Inr bitsTaken"
    using bt by (simp add: revealBitsTaken_eq of_nat_diff)
  let ?f = "\<lambda>j. to_bits bt (js_get out (dpos j))"
  have q: "3 + length ?pv \<le> 3 * Suc p"
    using length_payload_vals [OF bt(2,3) par(3)] by simp
  have split: "[3..<3 * Suc p] = [3..<3 + length ?pv] @ [3 + length ?pv..<3 * Suc p]"
    using q upt_add_eq_append [of 3 "3 + length ?pv" "3 * Suc p - (3 + length ?pv)"] by simp
  have "map ?f [3..<3 + length ?pv] = map (to_bits bt) ?pv"
  proof (rule nth_equalityI)
    show "length (map ?f [3..<3 + length ?pv]) = length (map (to_bits bt) ?pv)"
      by simp
    fix i
    assume "i < length (map ?f [3..<3 + length ?pv])"
    then have i: "i < length ?pv"
      by simp
    have "js_get out (dpos (3 + i)) mod 2 ^ bt = ?pv ! i"
      using below [of "dpos (3 + i)"] i hide_written_payload [where rng = rng and k = k, OF assms(2) bt(2,3) par(3) i] by simp
    then have "to_bits bt (js_get out (dpos (3 + i))) = to_bits bt (?pv ! i)"
      by (metis to_bits_mod)
    then show "map ?f [3..<3 + length ?pv] ! i = map (to_bits bt) ?pv ! i"
      using i by (simp add: add.commute)
  qed
  then have "concat (map ?f [3..<3 * Suc p]) =
      bits_of_bytes hData @ leftover_bits bt (chunk_rest bt (bits_of_bytes hData)) (rng 0) @
        concat (map ?f [3 + length ?pv..<3 * Suc p])"
    using split concat_payload_vals [OF bt(2,3)] by (simp add: payload_bits_def)
  moreover have "reveal_spec out bt = bytes_of_bits (concat (map ?f [3..<3 * Suc p]))"
    using len by (simp add: reveal_spec_def)
  ultimately have rs: "reveal_spec out bt = hData @ bytes_of_bits
      (leftover_bits bt (chunk_rest bt (bits_of_bytes hData)) (rng 0) @ concat (map ?f [3 + length ?pv..<3 * Suc p]))"
    by (simp add: bytes_of_bits_prefix)
  have "length (reveal_spec out bt) = 3 * p * bt div 8"
    using len by (simp add: reveal_spec_def length_bytes_of_bits length_concat_map_to_bits)
  moreover have "revealBlob out = Inr (reveal_spec out bt)"
    using revealBlob_eq_spec [OF len] rbt by (simp add: bt_def)
  ultimately show ?thesis
    using rs by (auto simp add: bt_def)
qed

end
