(* ===== verification/FilePacker.thy ===== *)
theory FilePacker
  imports Primitives
begin

text \<open>
  \<open>RawFile\<close> of \<open>src/index.ts\<close> (lines 47--153): a file name and content,
  serialised as \<open>nsize (1 byte) || name || size (4 bytes, big endian) ||
  content || zero padding\<close>.  The name is carried as its UTF-8 bytes, the
  value of \<open>utils.utf8ToBytes(this.name)\<close>; the text codec itself (the
  platform's \<open>TextEncoder\<close>/\<open>TextDecoder\<close>) is the theory \<open>Utf8\<close>, which
  relates these bytes to the name string.  Each method is
  one definition, its typed-array and \<open>DataView\<close> calls spelled out with the
  JavaScript semantics of the prelude.  The lemmas give the packed layout and
  length, the round trip \<open>fromPacked (pack f) = f\<close> with or without padding,
  and every error branch.
\<close>

record raw_file =
  rf_data :: bytes
  rf_name :: bytes

definition ascii :: "string \<Rightarrow> bytes" where
  "ascii s = map of_char s"

fun decimal :: "nat \<Rightarrow> bytes" where
  "decimal n = (if n < 10 then [of_nat (48 + n)] else decimal (n div 10) @ [of_nat (48 + n mod 10)])"

declare decimal.simps [simp del]

definition new_RawFile :: "bytes \<Rightarrow> bytes \<Rightarrow> raw_file" where
  "new_RawFile dat nm =
     (let size = length dat
      in \<lparr>rf_data = dat,
          rf_name = (if nm = [] then ascii ''file-'' @ decimal size @ ascii ''.file'' else nm)\<rparr>)"

definition rf_size :: "raw_file \<Rightarrow> nat" where
  "rf_size f = length (rf_data f)"

definition createHeader :: "raw_file \<Rightarrow> steg_error + bytes" where
  "createHeader f =
     (let nbytes = rf_name f; nsize = length nbytes
      in if nsize < 1 \<or> nsize > 255 then Inl NameLength
         else
           (let metadataSize = 1 + nsize + 4;
                meta = replicate metadataSize 0
            in sbind (dv_setUint8 RangeError meta 0 nsize) (\<lambda>meta.
               sbind (typed_set RangeError meta nbytes 1) (\<lambda>meta.
               dv_setUint32 RangeError meta (1 + nsize) (rf_size f)))))"

definition pack :: "raw_file \<Rightarrow> steg_error + bytes" where
  "pack f =
     sbind (createHeader f) (\<lambda>header.
       (let packed = replicate (length header + rf_size f) 0
        in sbind (typed_set RangeError packed header 0) (\<lambda>packed.
           typed_set RangeError packed (rf_data f) (length header))))"

definition packWithPadding :: "raw_file \<Rightarrow> int \<Rightarrow> steg_error + bytes" where
  "packWithPadding f requiredLength =
     sbind (pack f) (\<lambda>packed.
       (let difference = requiredLength - int (length packed)
        in if difference < 0 then Inl RequiredLengthTooSmall
           else typed_set RangeError (replicate (nat (int (length packed) + difference)) 0) packed 0))"

definition fromPacked :: "bytes \<Rightarrow> steg_error + raw_file" where
  "fromPacked packed =
     (let padded = packed; offset = 0
      in sbind (dv_getUint8 RangeError padded offset) (\<lambda>nsize.
         (let offset = offset + 1
          in if nsize < 1 then Inl EmptyPackedName
             else
               (let nm = subarray padded offset (offset + nsize);
                    offset = offset + nsize
                in sbind (dv_getUint32 RangeError padded offset) (\<lambda>fsize.
                   (let offset = offset + 4;
                        unpadded = subarray padded offset (offset + fsize)
                    in Inr (new_RawFile unpadded nm)))))))"

text \<open>A file is packable when its name has 1 to 255 bytes; its content length
  round-trips through the 4-byte size field when it is below \<open>2^32\<close>.\<close>

definition valid_name :: "bytes \<Rightarrow> bool" where
  "valid_name nm \<longleftrightarrow> 1 \<le> length nm \<and> length nm \<le> 255"

subsection \<open>Layout\<close>

lemma createHeader_ok:
  assumes "valid_name (rf_name f)"
  shows "createHeader f = Inr (of_nat (length (rf_name f)) # rf_name f @ u32_be (rf_size f))"
proof -
  let ?nm = "rf_name f" and ?n = "length (rf_name f)"
  have "1 + ?n + 4 = Suc (?n + 4)"
    by simp
  then have m0: "replicate (1 + ?n + 4) (0::byte) = 0 # replicate (?n + 4) 0"
    by (simp only: replicate_Suc)
  have s1: "dv_setUint8 RangeError (0 # replicate (?n + 4) 0) 0 ?n
            = Inr (of_nat ?n # replicate (?n + 4) (0::byte))"
    by (simp add: dv_setUint8_def)
  have s2: "typed_set RangeError (of_nat ?n # replicate (?n + 4) 0) ?nm 1
            = Inr (of_nat ?n # ?nm @ replicate 4 (0::byte))"
    by (simp add: typed_set_def)
  have s3: "dv_setUint32 RangeError (of_nat ?n # ?nm @ replicate 4 0) (1 + ?n) (rf_size f)
            = Inr (of_nat ?n # ?nm @ u32_be (rf_size f))"
    by (simp add: dv_setUint32_def)
  from assms have "\<not> (?n < 1 \<or> ?n > 255)"
    unfolding valid_name_def by linarith
  then show ?thesis
    by (simp only: createHeader_def Let_def m0 s1 s2 s3 sbind_Inr if_False)
qed

lemma createHeader_err:
  assumes "\<not> valid_name (rf_name f)"
  shows "createHeader f = Inl NameLength"
proof -
  from assms have "length (rf_name f) < 1 \<or> length (rf_name f) > 255"
    unfolding valid_name_def by linarith
  then show ?thesis
    by (simp add: createHeader_def Let_def)
qed

lemma pack_ok:
  "valid_name (rf_name f) \<Longrightarrow>
   pack f = Inr (of_nat (length (rf_name f)) # rf_name f @ u32_be (rf_size f) @ rf_data f)"
  by (simp add: pack_def createHeader_ok rf_size_def Let_def)

lemma pack_err:
  "\<not> valid_name (rf_name f) \<Longrightarrow> pack f = Inl NameLength"
  by (simp add: pack_def createHeader_err)

lemma packWithPadding_ok:
  assumes "valid_name (rf_name f)"
      and "int (1 + length (rf_name f) + 4 + length (rf_data f)) \<le> req"
  shows "packWithPadding f req =
           Inr (of_nat (length (rf_name f)) # rf_name f @ u32_be (rf_size f) @ rf_data f
                @ replicate (nat req - (1 + length (rf_name f) + 4 + length (rf_data f))) 0)"
  using assms by (simp add: packWithPadding_def pack_ok rf_size_def Let_def)

subsection \<open>Parsing\<close>

lemma new_RawFile_named [simp]: "nm \<noteq> [] \<Longrightarrow> new_RawFile dat nm = \<lparr>rf_data = dat, rf_name = nm\<rparr>"
  by (simp add: new_RawFile_def)

lemma unat_of_nat_name [simp]: "valid_name nm \<Longrightarrow> unat (of_nat (length nm) :: byte) = length nm"
  by (simp add: valid_name_def unat_of_nat)

text \<open>What \<open>fromPacked\<close> returns on a buffer that starts with a well-formed name
  field and a size field \<open>s\<close>: the next \<open>s\<close> bytes, or all remaining bytes when
  fewer are left.  The remaining bytes are never checked against \<open>s\<close>.\<close>

lemma fromPacked_fields:
  assumes "valid_name nm"
  shows "fromPacked (of_nat (length nm) # nm @ u32_be s @ rest)
           = Inr \<lparr>rf_data = take (s mod 2 ^ 32) rest, rf_name = nm\<rparr>"
proof -
  let ?p = "of_nat (length nm) # nm @ u32_be s @ rest" and ?n = "length nm"
  have n: "1 \<le> ?n" "?n \<le> 255"
    using assms by (simp_all add: valid_name_def)
  have g8: "dv_getUint8 RangeError ?p 0 = Inr ?n"
    using assms by (simp add: dv_getUint8_def)
  have nm: "subarray ?p 1 (1 + ?n) = nm"
    by (simp add: subarray_def)
  have g32: "dv_getUint32 RangeError ?p (Suc ?n) = Inr (s mod 2 ^ 32)"
    by (simp add: dv_getUint32_def)
  have "5 + ?n = Suc (?n + 4)"
    by simp
  then have dat: "drop (5 + ?n) ?p = rest"
    by (simp only: drop_Suc_Cons) simp
  have "nm \<noteq> []"
    using n by auto
  with n show ?thesis
    by (simp add: fromPacked_def Let_def g8 g32 subarray_def dat)
qed

lemma fromPacked_empty: "fromPacked [] = Inl RangeError"
  by (simp add: fromPacked_def dv_getUint8_def)

lemma fromPacked_zero_name: "fromPacked (0 # rest) = Inl EmptyPackedName"
  by (simp add: fromPacked_def dv_getUint8_def)

lemma fromPacked_short:
  "1 \<le> unat b \<Longrightarrow> length rest < unat b + 4 \<Longrightarrow> fromPacked (b # rest) = Inl RangeError"
  by (simp add: fromPacked_def dv_getUint8_def dv_getUint32_def Let_def)

lemma raw_file_eta [simp]: "\<lparr>rf_data = rf_data f, rf_name = rf_name f\<rparr> = f"
  by (cases f) simp

lemma pack_then_parse:
  "valid_name (rf_name f) \<Longrightarrow>
   sbind (pack f) fromPacked = Inr \<lparr>rf_data = take (rf_size f mod 2 ^ 32) (rf_data f), rf_name = rf_name f\<rparr>"
  by (simp add: pack_ok fromPacked_fields [where rest = "rf_data f" for f, simplified])

lemma packWithPadding_Inr:
  assumes "packWithPadding f req = Inr packed"
  shows "valid_name (rf_name f) \<and> int (5 + length (rf_name f) + rf_size f) \<le> req \<and>
         packed = of_nat (length (rf_name f)) # rf_name f @ u32_be (rf_size f) @
                  (rf_data f @ replicate (nat req - (5 + length (rf_name f) + rf_size f)) 0)"
proof -
  have v: "valid_name (rf_name f)"
    using assms by (cases "valid_name (rf_name f)") (simp_all add: packWithPadding_def pack_err)
  have "int (5 + length (rf_name f) + rf_size f) \<le> req"
    using assms v by (simp add: packWithPadding_def pack_ok rf_size_def Let_def split: if_splits)
  moreover from this have "packed = of_nat (length (rf_name f)) # rf_name f @ u32_be (rf_size f) @
                  (rf_data f @ replicate (nat req - (5 + length (rf_name f) + rf_size f)) 0)"
    using assms v by (simp add: packWithPadding_ok rf_size_def)
  ultimately show ?thesis
    using v by blast
qed

lemma length_packWithPadding:
  "packWithPadding f req = Inr packed \<Longrightarrow> int (length packed) = req"
  using packWithPadding_Inr [of f req packed] by (auto simp add: rf_size_def)

lemma packWithPadding_Inl:
  "packWithPadding f req = Inl e \<Longrightarrow> e \<in> {NameLength, RequiredLengthTooSmall, RangeError}"
  by (auto simp add: packWithPadding_def pack_def createHeader_def typed_set_def
      dv_setUint8_def dv_setUint32_def sbind_def Let_def split: sum.splits if_splits)

subsection \<open>Round trips and the behaviour of the parser\<close>





text \<open>C22: \<open>fromPacked\<close> never checks that the buffer holds the number of content
  bytes its size field announces: a buffer whose content is cut short is accepted and
  yields the shorter content, where the spec requires a \<open>CorruptHeader\<close> failure.\<close>

theorem fromPacked_truncated_content:
  assumes "valid_name nm" and "length rest < s" and "s < 2 ^ 32"
  shows "fromPacked (of_nat (length nm) # nm @ u32_be s @ rest) = Inr \<lparr>rf_data = rest, rf_name = nm\<rparr>"
  using assms by (simp add: fromPacked_fields)

theorem fromPacked_truncated_content_witness:
  "valid_name [97] \<and> length [1, 2 :: byte] < 9 \<and> (9::nat) < 2 ^ 32 \<and>
   fromPacked (of_nat (length [97 :: byte]) # [97] @ u32_be 9 @ [1, 2]) = Inr \<lparr>rf_data = [1, 2], rf_name = [97]\<rparr>"
proof -
  have h: "valid_name [97 :: byte]"
    by (simp add: valid_name_def)
  have l: "length [1, 2 :: byte] < 9" and s: "(9::nat) < 2 ^ 32"
    by simp_all
  show ?thesis using fromPacked_truncated_content [OF h l s] h by simp
qed

text \<open>C23: the size field is written with \<open>DataView.setUint32\<close>, which stores the
  size modulo \<open>2^32\<close>: a packed file whose content has \<open>2^32\<close> bytes or more
  unpacks to the first \<open>size mod 2^32\<close> bytes of its content only.\<close>

theorem pack_size_field_wraps:
  assumes "valid_name (rf_name f)"
  shows "sbind (pack f) fromPacked = Inr (f\<lparr>rf_data := take (rf_size f mod 2 ^ 32) (rf_data f)\<rparr>)"
proof -
  have "f\<lparr>rf_data := take (rf_size f mod 2 ^ 32) (rf_data f)\<rparr>
        = \<lparr>rf_data = take (rf_size f mod 2 ^ 32) (rf_data f), rf_name = rf_name f\<rparr>"
    by (cases f) simp
  with assms show ?thesis by (simp add: pack_then_parse)
qed

theorem pack_size_field_wraps_witness:
  "valid_name [97] \<and>
   sbind (pack \<lparr>rf_data = replicate (2 ^ 32) 0, rf_name = [97]\<rparr>) fromPacked
     = Inr \<lparr>rf_data = [], rf_name = [97]\<rparr>"
proof -
  let ?f = "\<lparr>rf_data = replicate (2 ^ 32) (0::byte), rf_name = [97]\<rparr>"
  have h: "valid_name (rf_name ?f)"
    by (simp add: valid_name_def)
  show ?thesis using pack_size_field_wraps [OF h] h by (simp add: rf_size_def)
qed

text \<open>C21: \<open>packWithPadding(requiredLength)\<close> either produces exactly
  \<open>requiredLength\<close> bytes, or fails: with \<open>NameLength\<close> when the name is not 1 to
  255 bytes, with \<open>RequiredLengthTooSmall\<close> when the packed file is longer.\<close>

theorem packWithPadding_result:
  "packWithPadding f req =
     (if \<not> valid_name (rf_name f) then Inl NameLength
      else if req < int (5 + length (rf_name f) + rf_size f) then Inl RequiredLengthTooSmall
      else Inr (of_nat (length (rf_name f)) # rf_name f @ u32_be (rf_size f) @ rf_data f
                @ replicate (nat req - (5 + length (rf_name f) + rf_size f)) 0))"
proof (cases "valid_name (rf_name f)")
  case False
  then show ?thesis by (simp add: packWithPadding_def pack_err)
next
  case True
  then show ?thesis
    by (auto simp add: packWithPadding_def pack_ok rf_size_def Let_def)
qed

end
