(* ===== verification/Codec.thy ===== *)
theory Codec
  imports Roundtrip FilePacker
begin

text \<open>
  \<open>StegImage.hide\<close> and \<open>StegImage.reveal\<close> (\<open>src/index.ts\<close> lines 224--237):
  capacity, packing with zero padding, AES-GCM and the channel cursor.  The
  cipher is the external library \<open>micro-aes-gcm\<close>; it is an interface here, a
  record \<open>aead\<close> of an encryption and a decryption function, with the contract
  \<open>aead_contract\<close> the code relies on: decryption inverts encryption, and a
  ciphertext is \<open>ENCRYPTED_METADATA_SIZE\<close> (a 12-byte nonce and a 16-byte tag)
  longer than its plaintext.  A rejected ciphertext (the library throws) is
  \<open>None\<close>, which \<open>reveal\<close> reports as \<open>DecryptFailed\<close>.
\<close>

record 'key aead =
  aes_encrypt :: "'key \<Rightarrow> bytes \<Rightarrow> bytes"
  aes_decrypt :: "'key \<Rightarrow> bytes \<Rightarrow> bytes option"

definition aead_contract :: "'key aead \<Rightarrow> bool" where
  "aead_contract A \<longleftrightarrow>
     (\<forall>key m. aes_decrypt A key (aes_encrypt A key m) = Some m \<and>
              length (aes_encrypt A key m) = length m + ENCRYPTED_METADATA_SIZE)"

definition aead_auth :: "'key aead \<Rightarrow> bool" where
  "aead_auth A \<longleftrightarrow>
     (\<forall>key key' m. key' \<noteq> key \<longrightarrow> aes_decrypt A key' (aes_encrypt A key m) = None)"

definition hide ::
  "'key aead \<Rightarrow> array_kind \<Rightarrow> (bytes \<Rightarrow> bytes option) \<Rightarrow> rng \<Rightarrow> bytes \<Rightarrow>
   raw_file \<Rightarrow> 'key \<Rightarrow> int \<Rightarrow> steg_error + bytes" where
  "hide A k canvas rng chs rawFile key bitsTaken =
     sbind (calcCapacity (length chs) bitsTaken) (\<lambda>c.
       (let capacity = cap_bytes c
        in sbind (packWithPadding rawFile (capacity - int ENCRYPTED_METADATA_SIZE)) (\<lambda>packed.
             (let ciphertext = aes_encrypt A key packed
              in if int (length ciphertext) \<noteq> capacity then Inl EncryptedSizeMismatch
                 else hideBlob k canvas rng chs bitsTaken ciphertext))))"

definition reveal :: "'key aead \<Rightarrow> bytes \<Rightarrow> 'key \<Rightarrow> steg_error + raw_file" where
  "reveal A chs key =
     sbind (revealBlob chs) (\<lambda>ciphertext.
       (case aes_decrypt A key ciphertext of
          None \<Rightarrow> Inl DecryptFailed
        | Some packed \<Rightarrow> fromPacked packed))"

text \<open>A stand-in provider that meets the contract and authenticates the key (a
  byte-wise XOR with a zero nonce and the key repeated as the tag), used by the
  witnesses.\<close>

definition toy_aead :: "byte aead" where
  "toy_aead =
     \<lparr>aes_encrypt = (\<lambda>key m. replicate 12 0 @ map (\<lambda>b. b XOR key) m @ replicate 16 key),
      aes_decrypt = (\<lambda>key c. if length c < 28 \<or> drop (length c - 16) c \<noteq> replicate 16 key then None
                             else Some (map (\<lambda>b. b XOR key) (take (length c - 28) (drop 12 c))))\<rparr>"

lemma toy_aead_contract: "aead_contract toy_aead"
  by (simp add: aead_contract_def toy_aead_def ENCRYPTED_METADATA_SIZE_def comp_def xor.assoc)

lemma toy_aead_auth: "aead_auth toy_aead"
  by (simp add: aead_auth_def toy_aead_def)

lemma hide_Inr:
  assumes "hide A k canvas rng chs f key bitsTaken = Inr out"
  shows "\<exists>c packed. calcCapacity (length chs) bitsTaken = Inr c \<and>
           packWithPadding f (cap_bytes c - int ENCRYPTED_METADATA_SIZE) = Inr packed \<and>
           int (length (aes_encrypt A key packed)) = cap_bytes c \<and>
           hideBlob k canvas rng chs bitsTaken (aes_encrypt A key packed) = Inr out"
  using assms by (auto simp add: hide_def Let_def sbind_eq_Inr split: if_splits)

text \<open>What \<open>revealBlob\<close> reads back from a buffer \<open>hide\<close> returned: the
  ciphertext of the padded file, whatever the cipher.\<close>

lemma hide_revealBlob:
  assumes "length chs = 4 * Suc p" "hide A k canvas rng chs f key bitsTaken = Inr out"
  shows "\<exists>cap packed. packWithPadding f (cap - int ENCRYPTED_METADATA_SIZE) = Inr packed \<and>
           revealBlob out = Inr (aes_encrypt A key packed)"
proof -
  obtain c packed where h: "calcCapacity (length chs) bitsTaken = Inr c"
      "packWithPadding f (cap_bytes c - int ENCRYPTED_METADATA_SIZE) = Inr packed"
      "int (length (aes_encrypt A key packed)) = cap_bytes c"
      "hideBlob k canvas rng chs bitsTaken (aes_encrypt A key packed) = Inr out"
    using hide_Inr [OF assms(2)] by blast
  let ?ct = "aes_encrypt A key packed"
  obtain rest where r: "revealBlob out = Inr (?ct @ rest)"
      "length (?ct @ rest) = 3 * p * nat bitsTaken div 8"
    using blob_roundtrip [OF h(4) assms(1)] by blast
  have b: "1 \<le> bitsTaken" "bitsTaken \<le> 8"
    using hideBlob_Inr_params [OF h(4) assms(1)] by simp_all
  then have "cap_bytes c = (int p * 3 * bitsTaken) div 8"
    using h(1) assms(1) calcCapacity_rgba [of bitsTaken p] by simp
  also have "\<dots> = int (3 * p * nat bitsTaken div 8)"
  proof -
    have "int p * 3 * bitsTaken = int (3 * p * nat bitsTaken)"
      using b by simp
    then show ?thesis
      by (simp only: zdiv_int of_nat_numeral)
  qed
  finally have "rest = []"
    using h(3) r(2) by simp
  then show ?thesis
    using r(1) h(2) by auto
qed

text \<open>The codec round trip, the core of the claims on \<open>hide\<close> and \<open>reveal\<close>.\<close>

lemma codec_roundtrip:
  assumes "aead_contract A" "length chs = 4 * Suc p"
      and "hide A k canvas rng chs f key bitsTaken = Inr out" "rf_size f < 2 ^ 32"
  shows "reveal A out key = Inr f"
proof -
  obtain cap packed where h: "packWithPadding f (cap - int ENCRYPTED_METADATA_SIZE) = Inr packed"
      "revealBlob out = Inr (aes_encrypt A key packed)"
    using hide_revealBlob [OF assms(2,3)] by blast
  have dec: "aes_decrypt A key (aes_encrypt A key packed) = Some packed"
    using assms(1) by (simp add: aead_contract_def)
  have "fromPacked packed = Inr f"
  proof -
    have "valid_name (rf_name f)"
      and pk: "packed = of_nat (length (rf_name f)) # rf_name f @ u32_be (rf_size f) @
           (rf_data f @ replicate (nat (cap - int ENCRYPTED_METADATA_SIZE) - (5 + length (rf_name f) + rf_size f)) 0)"
      using packWithPadding_Inr [OF h(1)] by blast+
    then show ?thesis
      using assms(4) by (simp add: fromPacked_fields rf_size_def)
  qed
  then show ?thesis
    using h(2) dec by (simp add: reveal_def)
qed

text \<open>A run of \<open>hide\<close> with the stand-in cipher, used by the witnesses: the
  file \<open>a\<close> holding the byte 170, key 5, bitsTaken 8, a 13-pixel buffer.\<close>

lemma toy_capacity: "calcCapacity 52 8 = Inr \<lparr>cap_bits = 288, cap_bytes = 36\<rparr>"
  using calcCapacity_rgba [of 8 12] by simp

lemma toy_pack: "packWithPadding \<lparr>rf_data = [170], rf_name = [97]\<rparr> 8 = Inr [1, 97, 0, 0, 0, 1, 170, 0]"
  by (simp add: packWithPadding_ok u32_be_def rf_size_def valid_name_def)

lemma toy_encrypt:
  "aes_encrypt toy_aead 5 [1, 97, 0, 0, 0, 1, 170, 0] = replicate 12 0 @ [4, 100, 5, 5, 5, 4, 175, 5] @ replicate 16 5"
  by (simp add: toy_aead_def)

lemma toy_hideBlob:
  "hideBlob Uint8Clamped Some (\<lambda>_. 0) (replicate 52 0) 8 (replicate 12 0 @ [4, 100, 5, 5, 5, 4, 175, 5] @ replicate 16 5) =
     Inr [1, 1, 1, 255, 0, 0, 0, 255, 0, 0, 0, 255, 0, 0, 0, 255, 0, 0, 0, 255,
          4, 100, 5, 255, 5, 5, 4, 255, 175, 5, 5, 255, 5, 5, 5, 255, 5, 5, 5,
          255, 5, 5, 5, 255, 5, 5, 5, 255, 5, 5, 5, 255]"
  by code_simp

lemma toy_hide_example:
  "hide toy_aead Uint8Clamped Some (\<lambda>_. 0) (replicate 52 0) \<lparr>rf_data = [170], rf_name = [97]\<rparr> 5 8 =
     Inr [1, 1, 1, 255, 0, 0, 0, 255, 0, 0, 0, 255, 0, 0, 0, 255, 0, 0, 0, 255,
          4, 100, 5, 255, 5, 5, 4, 255, 175, 5, 5, 255, 5, 5, 5, 255, 5, 5, 5,
          255, 5, 5, 5, 255, 5, 5, 5, 255, 5, 5, 5, 255]"
  using toy_capacity toy_pack toy_encrypt toy_hideBlob by (simp add: hide_def ENCRYPTED_METADATA_SIZE_def)

text \<open>C11: under the cipher's contract the size check of \<open>hide\<close> ("Encrypted blob
  must be equal to total data length") never fires: the padded plaintext has
  \<open>capacity - 28\<close> bytes and its ciphertext exactly \<open>capacity\<close>.\<close>

theorem hide_no_size_mismatch:
  assumes "aead_contract A"
  shows "hide A k canvas rng chs f key bitsTaken \<noteq> Inl EncryptedSizeMismatch"
proof
  assume h: "hide A k canvas rng chs f key bitsTaken = Inl EncryptedSizeMismatch"
  show False
  proof (cases "calcCapacity (length chs) bitsTaken")
    case (Inl e)
    then have "e = BitsOutOfRange"
      using calcCapacity_Inl_iff by blast
    then show False
      using h Inl by (simp add: hide_def)
  next
    case (Inr c)
    show False
    proof (cases "packWithPadding f (cap_bytes c - int ENCRYPTED_METADATA_SIZE)")
      case (Inl e)
      then have "e \<noteq> EncryptedSizeMismatch"
        using packWithPadding_Inl by blast
      then show False
        using h Inr Inl by (simp add: hide_def)
    next
      case (Inr packed)
      have "int (length (aes_encrypt A key packed)) = cap_bytes c"
        using assms length_packWithPadding [OF Inr] by (simp add: aead_contract_def ENCRYPTED_METADATA_SIZE_def)
      then show False
        using h \<open>calcCapacity (length chs) bitsTaken = Inr c\<close> Inr hideBlob_Inl [of k canvas rng chs bitsTaken]
        by (auto simp add: hide_def)
    qed
  qed
qed

theorem hide_no_size_mismatch_witness:
  "aead_contract toy_aead \<and>
   hide toy_aead Uint8Clamped Some (\<lambda>_. 0) (replicate 52 0) \<lparr>rf_data = [170], rf_name = [97]\<rparr> 5 8
     \<noteq> Inl EncryptedSizeMismatch"
  using hide_no_size_mismatch [OF toy_aead_contract] toy_aead_contract by blast


text \<open>C33: with a cipher that authenticates the key, \<open>reveal\<close> with any other key
  than the one \<open>hide\<close> used fails with \<open>DecryptFailed\<close>: it never parses the
  garbage a wrong key would decrypt to as a file.\<close>

theorem reveal_wrong_key:
  assumes "aead_auth A" "length chs = 4 * Suc p"
      and "hide A k canvas rng chs f key bitsTaken = Inr out" "key' \<noteq> key"
  shows "reveal A out key' = Inl DecryptFailed"
proof -
  obtain packed where "revealBlob out = Inr (aes_encrypt A key packed)"
    using hide_revealBlob [OF assms(2,3)] by blast
  moreover have "aes_decrypt A key' (aes_encrypt A key packed) = None"
    using assms(1,4) by (simp add: aead_auth_def)
  ultimately show ?thesis
    by (simp add: reveal_def)
qed

theorem reveal_wrong_key_witness:
  "aead_auth toy_aead \<and> length (replicate 52 (0 :: byte)) = 4 * Suc 12 \<and>
   hide toy_aead Uint8Clamped Some (\<lambda>_. 0) (replicate 52 0) \<lparr>rf_data = [170], rf_name = [97]\<rparr> 5 8 =
     Inr [1, 1, 1, 255, 0, 0, 0, 255, 0, 0, 0, 255, 0, 0, 0, 255, 0, 0, 0, 255,
          4, 100, 5, 255, 5, 5, 4, 255, 175, 5, 5, 255, 5, 5, 5, 255, 5, 5, 5,
          255, 5, 5, 5, 255, 5, 5, 5, 255, 5, 5, 5, 255] \<and> (6 :: byte) \<noteq> 5 \<and>
   reveal toy_aead [1, 1, 1, 255, 0, 0, 0, 255, 0, 0, 0, 255, 0, 0, 0, 255, 0, 0, 0, 255,
          4, 100, 5, 255, 5, 5, 4, 255, 175, 5, 5, 255, 5, 5, 5, 255, 5, 5, 5,
          255, 5, 5, 5, 255, 5, 5, 5, 255, 5, 5, 5, 255] 6 = Inl DecryptFailed"
proof -
  have l: "length (replicate 52 (0 :: byte)) = 4 * Suc 12" "(6 :: byte) \<noteq> 5"
    by simp_all
  show ?thesis
    using reveal_wrong_key [OF toy_aead_auth l(1) toy_hide_example l(2)] toy_aead_auth toy_hide_example l
    by blast
qed


text \<open>C34: \<open>hide\<close> returns for every file that fits: on an RGBA buffer, with
  \<open>bitsTaken\<close> in 1..8, a name of 1 to 255 bytes, a cipher meeting the contract
  and a canvas that gives the pixels back, whenever the packed file and the 28
  bytes of nonce and tag fit in the capacity \<open>floor(3 p bitsTaken / 8)\<close>.\<close>

theorem hide_succeeds:
  assumes "aead_contract A" "length chs = 4 * Suc p" "1 \<le> bitsTaken" "bitsTaken \<le> 8"
      and "valid_name (rf_name f)"
      and "int (5 + length (rf_name f) + rf_size f + ENCRYPTED_METADATA_SIZE) \<le> int p * 3 * bitsTaken div 8"
  shows "\<exists>out. hide A k Some rng chs f key bitsTaken = Inr out"
proof -
  define C where "C = int p * 3 * bitsTaken div 8"
  have cap: "calcCapacity (length chs) bitsTaken = Inr \<lparr>cap_bits = of_int (int p * 3 * bitsTaken), cap_bytes = C\<rparr>"
    using calcCapacity_rgba [OF assms(3,4), of p] assms(2) by (simp add: C_def)
  obtain packed where pk: "packWithPadding f (C - int ENCRYPTED_METADATA_SIZE) = Inr packed"
    using packWithPadding_ok [OF assms(5), of "C - int ENCRYPTED_METADATA_SIZE"] assms(6)
    by (simp add: C_def rf_size_def)
  have lp: "int (length packed) = C - int ENCRYPTED_METADATA_SIZE"
    using length_packWithPadding [OF pk] .
  have lc: "int (length (aes_encrypt A key packed)) = C"
    using assms(1) lp by (simp add: aead_contract_def)
  have "8 * C \<le> int p * 3 * bitsTaken"
    unfolding C_def by simp
  moreover have "int (8 * length (aes_encrypt A key packed)) = 8 * C"
    using lc by simp
  moreover have "int (3 * p * nat bitsTaken) = int p * 3 * bitsTaken"
    using assms(3) by simp
  ultimately have "int (8 * length (aes_encrypt A key packed)) \<le> int (3 * p * nat bitsTaken)"
    by linarith
  then have "8 * length (aes_encrypt A key packed) \<le> 3 * p * nat bitsTaken"
    by (simp only: of_nat_le_iff)
  then obtain out where "hideBlob k Some rng chs bitsTaken (aes_encrypt A key packed) = Inr out"
    using hideBlob_Some_fits [OF assms(2-4)] by blast
  then show ?thesis
    using cap pk lc by (simp add: hide_def)
qed

theorem hide_succeeds_witness:
  "aead_contract toy_aead \<and> length (replicate 52 (0 :: byte)) = 4 * Suc 12 \<and> (1::int) \<le> 8 \<and> (8::int) \<le> 8 \<and>
   valid_name [97] \<and>
   int (5 + length [97 :: byte] + rf_size \<lparr>rf_data = [170], rf_name = [97]\<rparr> + ENCRYPTED_METADATA_SIZE) \<le> int 12 * 3 * 8 div 8 \<and>
   (\<exists>out. hide toy_aead Uint8Clamped Some (\<lambda>_. 0) (replicate 52 0) \<lparr>rf_data = [170], rf_name = [97]\<rparr> 5 8 = Inr out)"
proof -
  have l: "length (replicate 52 (0 :: byte)) = 4 * Suc 12" "(1::int) \<le> 8" "(8::int) \<le> 8"
      "valid_name (rf_name \<lparr>rf_data = [170 :: byte], rf_name = [97]\<rparr>)"
      "int (5 + length (rf_name \<lparr>rf_data = [170 :: byte], rf_name = [97]\<rparr>) + rf_size \<lparr>rf_data = [170], rf_name = [97]\<rparr>
         + ENCRYPTED_METADATA_SIZE) \<le> int 12 * 3 * 8 div 8"
    by (simp_all add: valid_name_def rf_size_def ENCRYPTED_METADATA_SIZE_def)
  show ?thesis
    using hide_succeeds [OF toy_aead_contract l, of Uint8Clamped "\<lambda>_. 0" 5] toy_aead_contract l by simp
qed

end
