(* ===== verification/Demo.thy ===== *)
theory Demo
  imports Codec
begin

text \<open>
  The demo page (\<open>src/demo/index.js\<close>): the encryption form of
  \<open>setupEncryption\<close> (lines 17--84) and the decryption form of
  \<open>setupDecryption\<close> (lines 85--141) as state machines.  A form's state is
  its \<open>cache\<close> object together with the \<open>disabled\<close> flags of its inputs; an
  event is a DOM event with the value the handler reads (the decoded image's
  pixels, the chosen file, the password's validity and derived key, the
  slider's value).  A handler that throws leaves the mutations it made before
  the throw and reports the error; the page keeps running.  Labels, the
  \<open>scrypt\<close> key derivation, file reading and image decoding are not modelled
  (their results are the events' arguments).  The reachable states are an
  inductive set; the page's HTML, which is not in the repository, fixes the
  initial flags and the slider's range 1..8.
\<close>

datatype demo_error = TypeError | StegError steg_error

record 'key enc_form =
  ef_stegImg :: "bytes option"
  ef_hiddenFile :: "raw_file option"
  ef_key :: "'key option"
  ef_bitsTaken :: int
  ef_imageDisabled :: bool
  ef_dataFileDisabled :: bool
  ef_passwordDisabled :: bool
  ef_submitDisabled :: bool

datatype 'key enc_event =
    ImageChange bytes
  | DataFileChange raw_file
  | PasswordChange bool 'key
  | BitsTakenChange int
  | EncSubmit

definition reformat :: "'key enc_form \<Rightarrow> 'key enc_form \<times> demo_error option" where
  "reformat st =
     (let st = (if ef_stegImg st \<noteq> None then st\<lparr>ef_dataFileDisabled := False\<rparr> else st)
      in case (ef_stegImg st, ef_hiddenFile st, ef_key st) of
           (Some si, Some hf, Some _) \<Rightarrow>
             (case calcCapacity (length si) (ef_bitsTaken st) of
                Inl e \<Rightarrow> (st, Some (StegError e))
              | Inr c \<Rightarrow> (st\<lparr>ef_submitDisabled := (int (rf_size hf) > cap_bytes c)\<rparr>, None))
         | _ \<Rightarrow> (st\<lparr>ef_submitDisabled := True\<rparr>, None))"

text \<open>The result of an event: the new state, an error if the handler threw,
  and, for a submission, what \<open>hide\<close> returned.\<close>

definition enc_handle ::
  "'key aead \<Rightarrow> array_kind \<Rightarrow> (bytes \<Rightarrow> bytes option) \<Rightarrow> rng \<Rightarrow>
   'key enc_event \<Rightarrow> 'key enc_form \<Rightarrow> 'key enc_form \<times> demo_error option \<times> (steg_error + bytes) option" where
  "enc_handle A k canvas rng ev st =
     (case ev of
        ImageChange chs \<Rightarrow>
          (let (st, e) = reformat (st\<lparr>ef_stegImg := Some chs, ef_imageDisabled := True,
                                      ef_dataFileDisabled := False\<rparr>)
           in (st, e, None))
      | DataFileChange f \<Rightarrow>
          (let (st, e) = reformat (st\<lparr>ef_hiddenFile := Some f, ef_passwordDisabled := False\<rparr>)
           in (st, e, None))
      | PasswordChange valid key \<Rightarrow>
          (let (st, e) = reformat (if valid then st\<lparr>ef_key := Some key\<rparr> else st)
           in (st, e, None))
      | BitsTakenChange val \<Rightarrow>
          (let st = st\<lparr>ef_bitsTaken := val\<rparr>
           in case ef_stegImg st of
                None \<Rightarrow> (st, Some TypeError, None)
              | Some si \<Rightarrow>
                  (case calcCapacity (length si) val of
                     Inl e \<Rightarrow> (st, Some (StegError e), None)
                   | Inr _ \<Rightarrow> (let (st, e) = reformat st in (st, e, None))))
      | EncSubmit \<Rightarrow>
          (case (ef_stegImg st, ef_hiddenFile st, ef_key st) of
             (Some si, Some hf, Some key) \<Rightarrow>
               (st, None, Some (hide A k canvas rng si hf key (ef_bitsTaken st)))
           | _ \<Rightarrow> (st, None, None)))"

definition enc_init :: "'key enc_form" where
  "enc_init =
     \<lparr>ef_stegImg = None, ef_hiddenFile = None, ef_key = None, ef_bitsTaken = 1,
      ef_imageDisabled = False, ef_dataFileDisabled = True, ef_passwordDisabled = True,
      ef_submitDisabled = True\<rparr>"

text \<open>An event the user can fire on the page: a change of an enabled input,
  the slider within its range, a click on the enabled submit button.\<close>

fun enc_enabled :: "'key enc_event \<Rightarrow> 'key enc_form \<Rightarrow> bool" where
  "enc_enabled (ImageChange _) st = (\<not> ef_imageDisabled st)"
| "enc_enabled (DataFileChange _) st = (\<not> ef_dataFileDisabled st)"
| "enc_enabled (PasswordChange _ _) st = (\<not> ef_passwordDisabled st)"
| "enc_enabled (BitsTakenChange v) st = (1 \<le> v \<and> v \<le> 8)"
| "enc_enabled EncSubmit st = (\<not> ef_submitDisabled st)"

inductive enc_reach ::
  "'key aead \<Rightarrow> array_kind \<Rightarrow> (bytes \<Rightarrow> bytes option) \<Rightarrow> rng \<Rightarrow> 'key enc_form \<Rightarrow> bool"
  for A k canvas rng where
  init: "enc_reach A k canvas rng enc_init"
| step: "enc_reach A k canvas rng st \<Longrightarrow> enc_enabled ev st \<Longrightarrow>
         enc_reach A k canvas rng (fst (enc_handle A k canvas rng ev st))"

fun enc_run ::
  "'key aead \<Rightarrow> array_kind \<Rightarrow> (bytes \<Rightarrow> bytes option) \<Rightarrow> rng \<Rightarrow>
   'key enc_event list \<Rightarrow> 'key enc_form \<Rightarrow> 'key enc_form" where
  "enc_run A k canvas rng [] st = st"
| "enc_run A k canvas rng (ev # evs) st = enc_run A k canvas rng evs (fst (enc_handle A k canvas rng ev st))"

definition enc_inv :: "'key enc_form \<Rightarrow> bool" where
  "enc_inv st \<longleftrightarrow> 1 \<le> ef_bitsTaken st \<and> ef_bitsTaken st \<le> 8 \<and>
     (\<not> ef_submitDisabled st \<longrightarrow>
        (\<exists>si hf key c. ef_stegImg st = Some si \<and> ef_hiddenFile st = Some hf \<and> ef_key st = Some key \<and>
           calcCapacity (length si) (ef_bitsTaken st) = Inr c \<and> int (rf_size hf) \<le> cap_bytes c))"


fun enc_run_enabled ::
  "'key aead \<Rightarrow> array_kind \<Rightarrow> (bytes \<Rightarrow> bytes option) \<Rightarrow> rng \<Rightarrow>
   'key enc_event list \<Rightarrow> 'key enc_form \<Rightarrow> bool" where
  "enc_run_enabled A k canvas rng [] st = True"
| "enc_run_enabled A k canvas rng (ev # evs) st =
     (enc_enabled ev st \<and> enc_run_enabled A k canvas rng evs (fst (enc_handle A k canvas rng ev st)))"


record 'key dec_form =
  df_simg :: "bytes option"
  df_key :: "'key option"
  df_submitDisabled :: bool

datatype 'key dec_event =
    DecFileChange bytes
  | DecPasswordChange bool 'key
  | DecSubmit

definition dec_handle ::
  "'key aead \<Rightarrow> 'key dec_event \<Rightarrow> 'key dec_form \<Rightarrow> 'key dec_form \<times> (steg_error + raw_file) option" where
  "dec_handle A ev st =
     (case ev of
        DecFileChange chs \<Rightarrow>
          (case sbind (revealBitsTaken chs) (\<lambda>bitsTaken. calcCapacity (length chs) bitsTaken) of
             Inl _ \<Rightarrow> (st, None)
           | Inr _ \<Rightarrow> (st\<lparr>df_simg := Some chs\<rparr>, None))
      | DecPasswordChange valid key \<Rightarrow>
          (if valid then (st\<lparr>df_key := Some key, df_submitDisabled := False\<rparr>, None)
           else (st\<lparr>df_submitDisabled := True\<rparr>, None))
      | DecSubmit \<Rightarrow>
          (case (df_key st, df_simg st) of
             (Some key, Some chs) \<Rightarrow> (st, Some (reveal A chs key))
           | _ \<Rightarrow> (st, None)))"

definition dec_init :: "'key dec_form" where
  "dec_init = \<lparr>df_simg = None, df_key = None, df_submitDisabled = True\<rparr>"

text \<open>An event the user can fire on the decryption form: a file or password
  change at any time, a click on the submit button when it is enabled.\<close>

fun dec_enabled :: "'key dec_event \<Rightarrow> 'key dec_form \<Rightarrow> bool" where
  "dec_enabled DecSubmit st = (\<not> df_submitDisabled st)"
| "dec_enabled _ st = True"

inductive dec_reach :: "'key aead \<Rightarrow> 'key dec_form \<Rightarrow> bool" for A where
  init: "dec_reach A dec_init"
| step: "dec_reach A st \<Longrightarrow> dec_enabled ev st \<Longrightarrow> dec_reach A (fst (dec_handle A ev st))"

definition dec_inv :: "'key dec_form \<Rightarrow> bool" where
  "dec_inv st \<longleftrightarrow> (\<not> df_submitDisabled st \<longrightarrow> df_key st \<noteq> None)"

subsection \<open>The encryption form\<close>

lemma reformat_inv:
  assumes "1 \<le> ef_bitsTaken st" "ef_bitsTaken st \<le> 8"
  shows "enc_inv (fst (reformat st)) \<and> snd (reformat st) = None"
proof (cases "\<exists>si hf key. ef_stegImg st = Some si \<and> ef_hiddenFile st = Some hf \<and> ef_key st = Some key")
  case True
  then obtain si hf key where s: "ef_stegImg st = Some si" "ef_hiddenFile st = Some hf" "ef_key st = Some key"
    by blast
  obtain c where c: "calcCapacity (length si) (ef_bitsTaken st) = Inr c"
    using assms by (simp add: calcCapacity_ok)
  show ?thesis
    using assms s c by (auto simp add: reformat_def enc_inv_def Let_def not_less)
next
  case False
  then have "reformat st = ((if ef_stegImg st \<noteq> None then st\<lparr>ef_dataFileDisabled := False\<rparr> else st)
                              \<lparr>ef_submitDisabled := True\<rparr>, None)"
    by (auto simp add: reformat_def Let_def split: option.splits)
  then show ?thesis
    using assms by (simp add: enc_inv_def)
qed


lemma enc_handle_state:
  "fst (enc_handle A k canvas rng (ImageChange chs) st) =
     fst (reformat (st\<lparr>ef_stegImg := Some chs, ef_imageDisabled := True, ef_dataFileDisabled := False\<rparr>))"
  "fst (enc_handle A k canvas rng (DataFileChange f) st) =
     fst (reformat (st\<lparr>ef_hiddenFile := Some f, ef_passwordDisabled := False\<rparr>))"
  "fst (enc_handle A k canvas rng (PasswordChange valid key) st) =
     fst (reformat (if valid then st\<lparr>ef_key := Some key\<rparr> else st))"
  "fst (enc_handle A k canvas rng (BitsTakenChange v) st) =
     (case ef_stegImg st of
        None \<Rightarrow> st\<lparr>ef_bitsTaken := v\<rparr>
      | Some si \<Rightarrow> (case calcCapacity (length si) v of
                     Inl _ \<Rightarrow> st\<lparr>ef_bitsTaken := v\<rparr>
                   | Inr _ \<Rightarrow> fst (reformat (st\<lparr>ef_bitsTaken := v\<rparr>))))"
  "fst (enc_handle A k canvas rng EncSubmit st) = st"
  by (simp_all add: enc_handle_def split_def Let_def split: option.splits sum.splits)


lemma enc_handle_inv:
  assumes "enc_inv st" "enc_enabled ev st"
  shows "enc_inv (fst (enc_handle A k canvas rng ev st))"
proof (cases ev)
  case (ImageChange chs)
  then show ?thesis
    using assms reformat_inv [of "st\<lparr>ef_stegImg := Some chs, ef_imageDisabled := True, ef_dataFileDisabled := False\<rparr>"]
    by (simp add: enc_handle_state enc_inv_def)
next
  case (DataFileChange f)
  then show ?thesis
    using assms reformat_inv [of "st\<lparr>ef_hiddenFile := Some f, ef_passwordDisabled := False\<rparr>"]
    by (simp add: enc_handle_state enc_inv_def)
next
  case (PasswordChange valid key)
  then show ?thesis
    using assms reformat_inv [of "if valid then st\<lparr>ef_key := Some key\<rparr> else st"]
    by (simp add: enc_handle_state enc_inv_def)
next
  case (BitsTakenChange v)
  show ?thesis
  proof (cases "ef_stegImg st")
    case None
    then show ?thesis
      using assms BitsTakenChange by (auto simp add: enc_handle_state enc_inv_def)
  next
    case (Some si)
    have v: "1 \<le> v" "v \<le> 8"
      using assms(2) BitsTakenChange by simp_all
    then obtain c where "calcCapacity (length si) v = Inr c"
      by (auto simp add: calcCapacity_ok)
    then show ?thesis
      using v Some BitsTakenChange reformat_inv [of "st\<lparr>ef_bitsTaken := v\<rparr>"]
      by (simp add: enc_handle_state)
  qed
next
  case EncSubmit
  then show ?thesis
    using assms(1) by (simp add: enc_handle_state)
qed


lemma enc_reach_inv: "enc_reach A k canvas rng st \<Longrightarrow> enc_inv st"
proof (induction rule: enc_reach.induct)
  case init
  then show ?case
    by (simp add: enc_init_def enc_inv_def)
next
  case (step st ev)
  show ?case
    using step.IH step.hyps(2) by (rule enc_handle_inv)
qed


lemma enc_reach_run:
  "enc_reach A k canvas rng st \<Longrightarrow> enc_run_enabled A k canvas rng evs st \<Longrightarrow>
   enc_reach A k canvas rng (enc_run A k canvas rng evs st)"
  by (induction evs arbitrary: st) (auto intro: enc_reach.step)


text \<open>A concrete session: an image of 13 pixels, a 4-byte file, a valid password.\<close>

lemma demo_example_session:
  "enc_run toy_aead Uint8Clamped Some (\<lambda>_. 0)
     [ImageChange (replicate 52 0), DataFileChange \<lparr>rf_data = [1, 2, 3, 4], rf_name = [97]\<rparr>,
      PasswordChange True (5 :: byte)] enc_init =
   \<lparr>ef_stegImg = Some (replicate 52 0), ef_hiddenFile = Some \<lparr>rf_data = [1, 2, 3, 4], rf_name = [97]\<rparr>,
    ef_key = Some 5, ef_bitsTaken = 1, ef_imageDisabled = True, ef_dataFileDisabled = False,
    ef_passwordDisabled = False, ef_submitDisabled = False\<rparr> \<and>
   enc_reach toy_aead Uint8Clamped Some (\<lambda>_. 0)
     \<lparr>ef_stegImg = Some (replicate 52 0), ef_hiddenFile = Some \<lparr>rf_data = [1, 2, 3, 4], rf_name = [97]\<rparr>,
      ef_key = Some (5 :: byte), ef_bitsTaken = 1, ef_imageDisabled = True, ef_dataFileDisabled = False,
      ef_passwordDisabled = False, ef_submitDisabled = False\<rparr>"
proof -
  let ?evs = "[ImageChange (replicate 52 0), DataFileChange \<lparr>rf_data = [1, 2, 3, 4], rf_name = [97]\<rparr>,
               PasswordChange True (5 :: byte)]"
  let ?st = "enc_run toy_aead Uint8Clamped Some (\<lambda>_. 0) ?evs enc_init"
  have cap: "calcCapacity 52 1 = Inr \<lparr>cap_bits = 36, cap_bytes = 4\<rparr>"
    using calcCapacity_rgba [of 1 12] by simp
  have st: "?st = \<lparr>ef_stegImg = Some (replicate 52 0), ef_hiddenFile = Some \<lparr>rf_data = [1, 2, 3, 4], rf_name = [97]\<rparr>,
      ef_key = Some 5, ef_bitsTaken = 1, ef_imageDisabled = True, ef_dataFileDisabled = False,
      ef_passwordDisabled = False, ef_submitDisabled = False\<rparr>"
    using cap by (simp add: enc_init_def enc_handle_state reformat_def rf_size_def)
  have "enc_reach toy_aead Uint8Clamped Some (\<lambda>_. 0) ?st"
    using cap by (intro enc_reach_run enc_reach.init) (simp add: enc_init_def enc_handle_state reformat_def rf_size_def)
  then show ?thesis
    using st by simp
qed

text \<open>C16: in every state the encryption form can reach, an enabled submit button
  means an image, a file and a key are set and the file's size is within the
  image's capacity at the chosen \<open>bitsTaken\<close> (the check of \<open>reformat\<close>), by
  rule induction over the reachable states.\<close>

theorem enc_submit_guard:
  assumes "enc_reach A k canvas rng st" "\<not> ef_submitDisabled st"
  shows "\<exists>si hf key c. ef_stegImg st = Some si \<and> ef_hiddenFile st = Some hf \<and> ef_key st = Some key \<and>
           calcCapacity (length si) (ef_bitsTaken st) = Inr c \<and> int (rf_size hf) \<le> cap_bytes c"
  using enc_reach_inv [OF assms(1)] assms(2) by (simp add: enc_inv_def)

theorem enc_submit_guard_witness:
  "enc_reach toy_aead Uint8Clamped Some (\<lambda>_. 0)
     \<lparr>ef_stegImg = Some (replicate 52 0), ef_hiddenFile = Some \<lparr>rf_data = [1, 2, 3, 4], rf_name = [97]\<rparr>,
      ef_key = Some (5 :: byte), ef_bitsTaken = 1, ef_imageDisabled = True, ef_dataFileDisabled = False,
      ef_passwordDisabled = False, ef_submitDisabled = False\<rparr> \<and>
   (\<exists>c. calcCapacity (length (replicate 52 (0 :: byte))) 1 = Inr c \<and>
      int (rf_size \<lparr>rf_data = [1, 2, 3, 4 :: byte], rf_name = [97]\<rparr>) \<le> cap_bytes c)"
  using enc_submit_guard [OF demo_example_session [THEN conjunct2]] demo_example_session by simp

text \<open>C15: the demo's capacity check is too weak: it compares the raw file size
  with the capacity, while \<open>hide\<close> needs room for the name, the 5 header bytes
  and the 28 bytes of the cipher.  A reachable state has the submit button
  enabled and its submission fails with \<open>RequiredLengthTooSmall\<close>.\<close>

theorem demo_submit_enabled_but_hide_fails:
  "\<exists>st. enc_reach toy_aead Uint8Clamped Some (\<lambda>_. 0) st \<and> \<not> ef_submitDisabled st \<and>
        snd (snd (enc_handle toy_aead Uint8Clamped Some (\<lambda>_. 0) EncSubmit st)) = Some (Inl RequiredLengthTooSmall)"
proof -
  let ?st = "\<lparr>ef_stegImg = Some (replicate 52 0), ef_hiddenFile = Some \<lparr>rf_data = [1, 2, 3, 4], rf_name = [97]\<rparr>,
      ef_key = Some (5 :: byte), ef_bitsTaken = 1, ef_imageDisabled = True, ef_dataFileDisabled = False,
      ef_passwordDisabled = False, ef_submitDisabled = False\<rparr>"
  have "calcCapacity 52 1 = Inr \<lparr>cap_bits = 36, cap_bytes = 4\<rparr>"
    using calcCapacity_rgba [of 1 12] by simp
  then have "snd (snd (enc_handle toy_aead Uint8Clamped Some (\<lambda>_. 0) EncSubmit ?st)) = Some (Inl RequiredLengthTooSmall)"
    by (simp add: enc_handle_def hide_def packWithPadding_def pack_ok valid_name_def rf_size_def
        ENCRYPTED_METADATA_SIZE_def)
  then show ?thesis
    using demo_example_session by auto
qed



subsection \<open>The decryption form\<close>

lemma dec_handle_file:
  "dec_handle A (DecFileChange chs) st = (st\<lparr>df_simg := Some chs\<rparr>, None)"
proof -
  have b: "1 \<le> 1 + int (4 * (js_get chs 0 mod 2) + 2 * (js_get chs 1 mod 2) + js_get chs 2 mod 2)"
          "1 + int (4 * (js_get chs 0 mod 2) + 2 * (js_get chs 1 mod 2) + js_get chs 2 mod 2) \<le> 8"
    by simp_all
  show ?thesis
    using calcCapacity_ok [OF b, of "length chs"]
    by (simp add: dec_handle_def revealBitsTaken_eq del: of_nat_add)
qed

lemma dec_handle_inv:
  assumes "dec_inv st"
  shows "dec_inv (fst (dec_handle A ev st))"
proof (cases ev)
  case (DecFileChange chs)
  then show ?thesis
    using assms by (simp add: dec_handle_file dec_inv_def)
next
  case (DecPasswordChange valid key)
  then show ?thesis
    using assms by (simp add: dec_handle_def dec_inv_def)
next
  case DecSubmit
  then show ?thesis
    using assms by (auto simp add: dec_handle_def dec_inv_def split: option.split)
qed

lemma dec_reach_inv: "dec_reach A st \<Longrightarrow> dec_inv st"
proof (induction rule: dec_reach.induct)
  case init
  then show ?case
    by (simp add: dec_init_def dec_inv_def)
next
  case (step st ev)
  show ?case
    using step.IH by (rule dec_handle_inv)
qed


text \<open>C18: the decryption form accepts every image: \<open>revealBitsTaken\<close> and
  \<open>calcCapacity\<close> never throw on a decoded image, so the \<open>catch\<close> branch that
  reports "Incorrect bitsTaken header: probably not a steg png" is unreachable.\<close>

theorem dec_file_always_accepted:
  "dec_handle A (DecFileChange chs) st = (st\<lparr>df_simg := Some chs\<rparr>, None)"
  by (rule dec_handle_file)

text \<open>C35: in the decryption form, a password that derives another key than the
  one the image was hidden with ends in the form's decryption error
  (\<open>DecryptFailed\<close>, "probably invalid password"), never in a file, when the
  cipher authenticates the key.\<close>

theorem dec_wrong_password:
  assumes "aead_auth A" "length chs = 4 * Suc p"
      and "hide A k canvas rng chs f key bitsTaken = Inr out" "key' \<noteq> key"
  shows "snd (dec_handle A DecSubmit
           (fst (dec_handle A (DecPasswordChange True key') (fst (dec_handle A (DecFileChange out) dst)))))
         = Some (Inl DecryptFailed)"
proof -
  obtain packed where "revealBlob out = Inr (aes_encrypt A key packed)"
    using hide_revealBlob [OF assms(2,3)] by blast
  moreover have "aes_decrypt A key' (aes_encrypt A key packed) = None"
    using assms(1,4) by (simp add: aead_auth_def)
  ultimately have "reveal A out key' = Inl DecryptFailed"
    by (simp add: reveal_def)
  then show ?thesis
    unfolding dec_handle_file by (simp add: dec_handle_def)
qed

theorem dec_wrong_password_witness:
  "aead_auth toy_aead \<and> length (replicate 52 (0 :: byte)) = 4 * Suc 12 \<and>
   hide toy_aead Uint8Clamped Some (\<lambda>_. 0) (replicate 52 0) \<lparr>rf_data = [170], rf_name = [97]\<rparr> 5 8 =
     Inr [1, 1, 1, 255, 0, 0, 0, 255, 0, 0, 0, 255, 0, 0, 0, 255, 0, 0, 0, 255,
          4, 100, 5, 255, 5, 5, 4, 255, 175, 5, 5, 255, 5, 5, 5, 255, 5, 5, 5,
          255, 5, 5, 5, 255, 5, 5, 5, 255, 5, 5, 5, 255] \<and> (6 :: byte) \<noteq> 5 \<and>
   snd (dec_handle toy_aead DecSubmit
     (fst (dec_handle toy_aead (DecPasswordChange True 6)
       (fst (dec_handle toy_aead (DecFileChange [1, 1, 1, 255, 0, 0, 0, 255, 0, 0, 0, 255, 0, 0, 0, 255, 0, 0, 0, 255,
          4, 100, 5, 255, 5, 5, 4, 255, 175, 5, 5, 255, 5, 5, 5, 255, 5, 5, 5,
          255, 5, 5, 5, 255, 5, 5, 5, 255, 5, 5, 5, 255]) \<lparr>df_simg = None, df_key = None, df_submitDisabled = True\<rparr>)))))
   = Some (Inl DecryptFailed)"
proof -
  have l: "length (replicate 52 (0 :: byte)) = 4 * Suc 12" "(6 :: byte) \<noteq> 5"
    by simp_all
  show ?thesis
    using dec_wrong_password [OF toy_aead_auth l(1) toy_hide_example l(2)] toy_aead_auth toy_hide_example l
    by blast
qed


text \<open>C39: in every reachable state of the decryption form an enabled submit
  button has a key behind it, and a submission is a silent no-op exactly when no
  image is loaded.  A valid password alone enables the button, so before an
  image is chosen submitting does nothing and reports nothing.\<close>

theorem dec_submit_guard:
  assumes "dec_reach A st" "\<not> df_submitDisabled st"
  shows "df_key st \<noteq> None \<and> (snd (dec_handle A DecSubmit st) = None \<longleftrightarrow> df_simg st = None)"
proof -
  have "df_key st \<noteq> None"
    using dec_reach_inv [OF assms(1)] assms(2) by (simp add: dec_inv_def)
  then show ?thesis
    by (auto simp add: dec_handle_def split: option.split)
qed

theorem dec_submit_guard_witness:
  "dec_reach toy_aead \<lparr>df_simg = None, df_key = Some 5, df_submitDisabled = False\<rparr> \<and>
   \<not> df_submitDisabled \<lparr>df_simg = None, df_key = Some (5 :: byte), df_submitDisabled = False\<rparr> \<and>
   df_key \<lparr>df_simg = None, df_key = Some (5 :: byte), df_submitDisabled = False\<rparr> \<noteq> None \<and>
   snd (dec_handle toy_aead DecSubmit \<lparr>df_simg = None, df_key = Some 5, df_submitDisabled = False\<rparr>) = None \<and>
   df_simg \<lparr>df_simg = None, df_key = Some (5 :: byte), df_submitDisabled = False\<rparr> = None"
proof -
  have "dec_reach toy_aead (fst (dec_handle toy_aead (DecPasswordChange True 5) dec_init))"
    by (rule dec_reach.step [OF dec_reach.init]) simp
  then have r: "dec_reach toy_aead \<lparr>df_simg = None, df_key = Some 5, df_submitDisabled = False\<rparr>"
    by (simp add: dec_handle_def dec_init_def)
  have e: "\<not> df_submitDisabled \<lparr>df_simg = None, df_key = Some (5 :: byte), df_submitDisabled = False\<rparr>"
    by simp
  show ?thesis
    using dec_submit_guard [OF r e] r by simp
qed

end
