(* ===== verification/Utils.thy ===== *)
theory Utils
  imports Prelude
begin

text \<open>
  \<open>utils.formatSize\<close> (\<open>src/index.ts\<close> lines 440--446), the size label of the
  demo.  The argument is an integer (the sizes and capacities the demo passes);
  the template literal \<open>${bytes}\<close> prints it in decimal, and
  \<open>Number.prototype.toFixed(2)\<close> prints \<open>bytes / 1024\<close> (an exact binary
  fraction) rounded to the nearest hundredth, ties upward, as the ECMAScript
  definition of \<open>toFixed\<close> prescribes.  The other members of \<open>utils\<close> are
  platform calls (\<open>TextEncoder\<close>, \<open>URL\<close>, DOM) and are not modelled.
\<close>

fun nat_str :: "nat \<Rightarrow> string" where
  "nat_str n = (if n < 10 then [char_of (48 + n)] else nat_str (n div 10) @ [char_of (48 + n mod 10)])"

definition int_str :: "int \<Rightarrow> string" where
  "int_str i = (if i < 0 then ''-'' @ nat_str (nat (- i)) else nat_str (nat i))"

definition toFixed2 :: "rat \<Rightarrow> string" where
  "toFixed2 x =
     (let s = (if x < 0 then ''-'' else ''''); x = \<bar>x\<bar>;
          n = nat \<lfloor>x * 100 + 1 / 2\<rfloor>
      in s @ nat_str (n div 100) @ ''.'' @ [char_of (48 + n mod 100 div 10), char_of (48 + n mod 10)])"

definition formatSize :: "int \<Rightarrow> string" where
  "formatSize bytes =
     (let KB = 1024; MB = 1024 * 1024
      in if bytes < KB then int_str bytes @ ''B''
         else if bytes < MB then toFixed2 (of_int bytes / of_int KB) @ ''KB''
         else toFixed2 (of_int bytes / of_int MB) @ ''MB'')"

declare nat_str.simps [simp del]

lemma toFixed2_KB_floor:
  "0 \<le> b \<Longrightarrow> \<lfloor>\<bar>of_int b / of_int 1024 :: rat\<bar> * 100 + 1 / 2\<rfloor> = (100 * b + 512) div 1024"
proof -
  assume "0 \<le> b"
  then have "\<bar>of_int b / of_int 1024 :: rat\<bar> * 100 + 1 / 2 = of_int (100 * b + 512) / of_int 1024"
    by (simp add: field_simps)
  then show ?thesis
    by (simp only: floor_divide_of_int_eq)
qed

text \<open>C24: \<open>formatSize\<close> labels the five sizes just below 1 MiB (1048571 to
  1048575 bytes) as \<open>1024.00KB\<close>: the rounding of \<open>toFixed(2)\<close> carries past the
  unit boundary the \<open>bytes < MB\<close> test has already decided.\<close>

theorem formatSize_rounds_up_to_1024KB:
  assumes "1048571 \<le> b" "b < 1048576"
  shows "formatSize b = ''1024.00KB''"
proof -
  define r where "r = 100 * b + 512 - 102400 * 1024"
  have r: "0 \<le> r" "r < 1024" "100 * b + 512 = r + 102400 * 1024"
    using assms by (simp_all add: r_def)
  then have "(100 * b + 512) div 1024 = 102400"
    by simp
  then have "nat \<lfloor>\<bar>of_int b / of_int 1024 :: rat\<bar> * 100 + 1 / 2\<rfloor> = 102400"
    using toFixed2_KB_floor [of b] assms by simp
  then show ?thesis
    using assms by (simp add: formatSize_def toFixed2_def Let_def nat_str.simps char_of_def bit_0)
qed

theorem formatSize_rounds_up_to_1024KB_witness:
  "1048571 \<le> (1048575 :: int) \<and> (1048575 :: int) < 1048576 \<and> formatSize 1048575 = ''1024.00KB''"
  using formatSize_rounds_up_to_1024KB [of 1048575] by simp

end
