(* ===== verification/Steg_Object.thy ===== *)
theory Steg_Object
  imports Codec
begin

text \<open>
  The \<open>StegImage\<close> object (\<open>src/index.ts\<close> lines 167--237 and 254--368): the
  decoded \<open>image\<close> it was built from and the \<open>imageData\<close> whose channels its
  methods read and write in place.  Both are pixel buffers here
  (\<open>si_image\<close>: the pixels \<open>drawImage\<close> renders, \<open>si_data\<close>: \<open>imageData.data\<close>);
  the canvas element itself is the external function of \<open>Writer\<close>.
  \<open>createCanvas\<close> draws the image on a fresh canvas and reads it back, failing
  when \<open>getContext\<close> returns \<open>null\<close> (\<open>ctx = False\<close>); the constructor and
  \<open>reset\<close> use it.  \<open>hideBlob\<close> writes into \<open>imageData.data\<close> as it goes
  (\<open>hideBlob_written\<close> is the array when it returns or throws) and calls
  \<open>reset\<close> only in the \<open>toBlob\<close> callback, after a successful verification;
  an exception thrown by that \<open>reset\<close> escapes the callback and leaves the
  object and the promise's value alone.
\<close>

record steg_image =
  si_image :: bytes
  si_data :: bytes

definition createCanvas :: "bool \<Rightarrow> bytes \<Rightarrow> steg_error + bytes" where
  "createCanvas ctx img = (if \<not> ctx then Inl InvalidContext else Inr img)"


definition reset :: "bool \<Rightarrow> steg_image \<Rightarrow> steg_image" where
  "reset ctx si =
     (case createCanvas ctx (si_image si) of
        Inl _ \<Rightarrow> si
      | Inr imageData \<Rightarrow> si\<lparr>si_data := imageData\<rparr>)"

definition hideBlob_written :: "array_kind \<Rightarrow> rng \<Rightarrow> bytes \<Rightarrow> int \<Rightarrow> bytes \<Rightarrow> bytes" where
  "hideBlob_written k rng chs bitsTaken hData =
     (let channelsLen = length chs; hDataLen = length hData
      in case sbind (validateBits bitsTaken) (\<lambda>_. calcCapacity channelsLen bitsTaken) of
           Inl _ \<Rightarrow> chs
         | Inr c \<Rightarrow>
             (if int hDataLen > cap_bytes c then chs
              else
                (let bt = nat bitsTaken;
                     s = \<lparr>channels = chs, channelId = 0, buf = 0, bufBits = 0, rnd = rng\<rparr>;
                     s = writeHeader k bt s;
                     s = writePayload k bt hData s
                 in case flushLeftover k bt s of
                      Inl _ \<Rightarrow> channels s
                    | Inr s \<Rightarrow> channels (fillRest k bt channelsLen s))))"

definition si_hideBlob ::
  "array_kind \<Rightarrow> bool \<Rightarrow> (bytes \<Rightarrow> bytes option) \<Rightarrow> rng \<Rightarrow> steg_image \<Rightarrow> bytes \<Rightarrow> int \<Rightarrow>
   (steg_error + bytes) \<times> steg_image" where
  "si_hideBlob k ctx canvas rng si hData bitsTaken =
     (let r = hideBlob k canvas rng (si_data si) bitsTaken hData;
          si = si\<lparr>si_data := hideBlob_written k rng (si_data si) bitsTaken hData\<rparr>
      in case r of
           Inl _ \<Rightarrow> (r, si)
         | Inr _ \<Rightarrow> (r, reset ctx si))"




subsection \<open>Lemmas on the object\<close>

lemma length_hideBlob_written [simp]:
  "length (hideBlob_written k rng chs bitsTaken hData) = length chs"
  by (auto simp add: hideBlob_written_def Let_def wstate_frame dest: flushLeftover_frame split: sum.split)

lemma hideBlob_Some_written:
  "hideBlob k Some rng chs bitsTaken hData = Inr w \<Longrightarrow> w = hideBlob_written k rng chs bitsTaken hData"
  by (auto simp add: hideBlob_def hideBlob_written_def sbind_def Let_def split: sum.splits if_splits)



lemma si_hideBlob_Inl:
  "si_hideBlob k ctx canvas rng si hData bitsTaken = (Inl e, si') \<longleftrightarrow>
   hideBlob k canvas rng (si_data si) bitsTaken hData = Inl e \<and>
   si' = si\<lparr>si_data := hideBlob_written k rng (si_data si) bitsTaken hData\<rparr>"
  by (auto simp add: si_hideBlob_def Let_def split: sum.splits)





subsection \<open>Properties of the object\<close>

text \<open>C26: \<open>hideBlob\<close> writes into the object's \<open>imageData\<close> in place and restores
  it (\<open>reset\<close>) only in the \<open>toBlob\<close> callback.  When it fails after the writes
  (on an RGBA image with valid \<open>bitsTaken\<close> and data that fits, the only failures
  left are the canvas's: no 2D context, or pixels read back differently), the
  object keeps the written channels: its own \<open>revealBlob\<close> now returns the data
  that was to be hidden, and every later call on it starts from these pixels
  instead of the image's.\<close>

theorem si_hideBlob_failure_keeps_writes:
  assumes "length (si_data si) = 4 * Suc p" "1 \<le> bitsTaken" "bitsTaken \<le> 8"
      and "8 * length hData \<le> 3 * p * nat bitsTaken"
      and "si_hideBlob k ctx canvas rng si hData bitsTaken = (Inl e, si')"
  shows "e \<in> {NoContext, VerifyMismatch} \<and> si_image si' = si_image si \<and>
         (\<exists>rest. revealBlob (si_data si') = Inr (hData @ rest))"
proof -
  define bt where "bt = nat bitsTaken"
  have bt: "bitsTaken = int bt" "0 < bt" "bt \<le> 8"
    using assms(2,3) unfolding bt_def by linarith+
  obtain s' where "hideBlob k Some rng (si_data si) (int bt) hData =
      verifyCanvas Some (channels (fillRest k bt (length (si_data si)) s'))"
    using hideBlob_run [OF assms(1) bt(2,3)] assms(4) bt_def by blast
  then obtain w where w: "hideBlob k Some rng (si_data si) bitsTaken hData = Inr w"
    using bt(1) by simp
  have s': "hideBlob k canvas rng (si_data si) bitsTaken hData = Inl e"
      "si' = si\<lparr>si_data := hideBlob_written k rng (si_data si) bitsTaken hData\<rparr>"
    using assms(5) by (simp_all add: si_hideBlob_Inl)
  then have "verifyCanvas canvas w = Inl e"
    using hideBlob_via_Some [of k canvas rng "si_data si" bitsTaken hData] w by simp
  then have "e \<in> {NoContext, VerifyMismatch}"
    by (auto simp add: verifyCanvas_def split: option.splits if_splits)
  moreover have "si_data si' = w"
    using s'(2) hideBlob_Some_written [OF w] by simp
  ultimately show ?thesis
    using blob_roundtrip [OF w assms(1)] s'(2) by auto
qed

theorem si_hideBlob_failure_keeps_writes_witness:
  "length (si_data \<lparr>si_image = replicate 16 0, si_data = replicate 16 0\<rparr>) = 4 * Suc 3 \<and>
   (1::int) \<le> 1 \<and> (1::int) \<le> 8 \<and> 8 * length [170 :: byte] \<le> 3 * 3 * nat 1 \<and>
   si_hideBlob Uint8Plain True (\<lambda>_. None) (\<lambda>_. 0) \<lparr>si_image = replicate 16 0, si_data = replicate 16 0\<rparr> [170] 1 =
     (Inl NoContext, \<lparr>si_image = replicate 16 0, si_data = [0, 0, 0, 0, 1, 0, 1, 0, 0, 1, 0, 0, 1, 0, 0, 0]\<rparr>) \<and>
   NoContext \<in> {NoContext, VerifyMismatch} \<and>
   (\<exists>rest. revealBlob [0, 0, 0, 0, 1, 0, 1, 0, 0, 1, 0, 0, 1, 0, 0, 0] = Inr ([170] @ rest))"
proof -
  have h: "si_hideBlob Uint8Plain True (\<lambda>_. None) (\<lambda>_. 0) \<lparr>si_image = replicate 16 0, si_data = replicate 16 0\<rparr> [170] 1 =
     (Inl NoContext, \<lparr>si_image = replicate 16 0, si_data = [0, 0, 0, 0, 1, 0, 1, 0, 0, 1, 0, 0, 1, 0, 0, 0]\<rparr>)"
    by code_simp
  have l: "length (si_data \<lparr>si_image = replicate 16 (0 :: byte), si_data = replicate 16 0\<rparr>) = 4 * Suc 3"
    by simp
  show ?thesis
    using si_hideBlob_failure_keeps_writes [OF l _ _ _ h] h l by simp
qed







end
