(* ===== verification/Utf8.thy ===== *)
theory Utf8
  imports FilePacker
begin

text \<open>
  \<open>utils.utf8ToBytes\<close> and \<open>utils.bytesToUtf8\<close> (\<open>src/index.ts\<close> lines
  411--416), the platform's \<open>TextEncoder.encode\<close> and \<open>TextDecoder.decode\<close> as
  the WHATWG Encoding standard defines them.  A JavaScript string is its list of
  UTF-16 code units (\<open>js_string\<close>).  The encoder reads the string as scalar
  values, a lone surrogate becoming U+FFFD (\<open>scalars\<close>), and writes each in one
  to four bytes (\<open>utf8_encode_cp\<close>).  The decoder is the standard's UTF-8
  decoder, a state machine over \<open>(code point, bytes seen, bytes needed, lower
  and upper boundary)\<close> that emits U+FFFD on an ill-formed sequence and
  reprocesses the offending byte (\<open>utf8_dec\<close>); \<open>TextDecoder\<close> then drops a
  leading U+FEFF (its BOM handling, \<open>ignoreBOM\<close> being false) and writes the
  code points back as UTF-16 (\<open>utf16_of_cp\<close>).
\<close>

unbundle bit_operations_syntax

type_synonym js_string = "nat list"

definition is_high_surrogate :: "nat \<Rightarrow> bool" where
  "is_high_surrogate c \<longleftrightarrow> 0xD800 \<le> c \<and> c < 0xDC00"

definition is_low_surrogate :: "nat \<Rightarrow> bool" where
  "is_low_surrogate c \<longleftrightarrow> 0xDC00 \<le> c \<and> c < 0xE000"

fun scalars :: "js_string \<Rightarrow> nat list" where
  "scalars [] = []"
| "scalars [c] = (if is_high_surrogate c \<or> is_low_surrogate c then [0xFFFD] else [c])"
| "scalars (c # d # cs) =
     (if is_high_surrogate c
      then (if is_low_surrogate d
            then (0x10000 + (c - 0xD800) * 0x400 + (d - 0xDC00)) # scalars cs
            else 0xFFFD # scalars (d # cs))
      else if is_low_surrogate c then 0xFFFD # scalars (d # cs)
      else c # scalars (d # cs))"

definition utf8_encode_cp :: "nat \<Rightarrow> bytes" where
  "utf8_encode_cp cp =
     (if cp < 0x80 then [of_nat cp]
      else if cp < 0x800 then [of_nat (0xC0 + cp div 64), of_nat (0x80 + cp mod 64)]
      else if cp < 0x10000 then
        [of_nat (0xE0 + cp div 4096), of_nat (0x80 + cp div 64 mod 64), of_nat (0x80 + cp mod 64)]
      else [of_nat (0xF0 + cp div 262144), of_nat (0x80 + cp div 4096 mod 64),
            of_nat (0x80 + cp div 64 mod 64), of_nat (0x80 + cp mod 64)])"

definition utf8ToBytes :: "js_string \<Rightarrow> bytes" where
  "utf8ToBytes str = concat (map utf8_encode_cp (scalars str))"

definition utf8_lead :: "nat \<Rightarrow> (nat \<times> nat \<times> nat \<times> nat) option" where
  "utf8_lead b =
     (if 0xC2 \<le> b \<and> b \<le> 0xDF then Some (b AND 0x1F, 1, 0x80, 0xBF)
      else if 0xE0 \<le> b \<and> b \<le> 0xEF then
        Some (b AND 0xF, 2, if b = 0xE0 then 0xA0 else 0x80, if b = 0xED then 0x9F else 0xBF)
      else if 0xF0 \<le> b \<and> b \<le> 0xF4 then
        Some (b AND 0x7, 3, if b = 0xF0 then 0x90 else 0x80, if b = 0xF4 then 0x8F else 0xBF)
      else None)"

function utf8_dec :: "nat \<Rightarrow> nat \<Rightarrow> nat \<Rightarrow> nat \<Rightarrow> nat \<Rightarrow> nat list \<Rightarrow> nat list" where
  "utf8_dec cp seen needed lower upper [] = (if needed \<noteq> 0 then [0xFFFD] else [])"
| "utf8_dec cp seen needed lower upper (b # bs) =
     (if needed = 0 then
        (if b \<le> 0x7F then b # utf8_dec 0 0 0 0x80 0xBF bs
         else (case utf8_lead b of
                 None \<Rightarrow> 0xFFFD # utf8_dec 0 0 0 0x80 0xBF bs
               | Some (c, n, lo, hi) \<Rightarrow> utf8_dec c 0 n lo hi bs))
      else if \<not> (lower \<le> b \<and> b \<le> upper) then 0xFFFD # utf8_dec 0 0 0 0x80 0xBF (b # bs)
      else if Suc seen = needed then (cp * 64 + (b AND 0x3F)) # utf8_dec 0 0 0 0x80 0xBF bs
      else utf8_dec (cp * 64 + (b AND 0x3F)) (Suc seen) needed 0x80 0xBF bs)"
  by pat_completeness auto
termination
  by (relation "measure (\<lambda>(cp, seen, needed, lower, upper, bs). 2 * length bs + (if needed = 0 then 0 else 1))")
     auto

fun utf16_of_cp :: "nat \<Rightarrow> js_string" where
  "utf16_of_cp cp =
     (if cp < 0x10000 then [cp]
      else [0xD800 + (cp - 0x10000) div 0x400, 0xDC00 + (cp - 0x10000) mod 0x400])"

definition strip_bom :: "nat list \<Rightarrow> nat list" where
  "strip_bom cps = (case cps of c # rest \<Rightarrow> if c = 0xFEFF then rest else cps | [] \<Rightarrow> [])"

definition bytesToUtf8 :: "bytes \<Rightarrow> js_string" where
  "bytesToUtf8 bs = concat (map utf16_of_cp (strip_bom (utf8_dec 0 0 0 0x80 0xBF (map unat bs))))"


text \<open>The strings the encoder inverts: UTF-16 with every surrogate paired, and
  the scalar values (code points outside the surrogate range).\<close>

fun wf_utf16 :: "js_string \<Rightarrow> bool" where
  "wf_utf16 [] = True"
| "wf_utf16 [c] = (c < 0x10000 \<and> \<not> is_high_surrogate c \<and> \<not> is_low_surrogate c)"
| "wf_utf16 (c # d # cs) =
     (c < 0x10000 \<and> \<not> is_low_surrogate c \<and>
      (if is_high_surrogate c then is_low_surrogate d \<and> wf_utf16 cs else wf_utf16 (d # cs)))"

definition scalar_ok :: "nat \<Rightarrow> bool" where
  "scalar_ok cp \<longleftrightarrow> cp < 0x110000 \<and> \<not> (0xD800 \<le> cp \<and> cp < 0xE000)"

subsection \<open>Decoding what was encoded\<close>

abbreviation dec0 :: "nat list \<Rightarrow> nat list" where
  "dec0 \<equiv> utf8_dec 0 0 0 0x80 0xBF"

lemma dec_cont:
  "0x80 \<le> lo \<Longrightarrow> lo \<le> 0x80 + c \<Longrightarrow> 0x80 + c \<le> hi \<Longrightarrow> c < 64 \<Longrightarrow> hi \<le> 0xBF \<Longrightarrow> 0 < n \<Longrightarrow>
   utf8_dec a s n lo hi ((0x80 + c) # bs) =
     (if Suc s = n then (a * 64 + c) # dec0 bs else utf8_dec (a * 64 + c) (Suc s) n 0x80 0xBF bs)"
proof -
  assume "c < 64" "0x80 \<le> lo" "lo \<le> 0x80 + c" "0x80 + c \<le> hi" "hi \<le> 0xBF" "0 < n"
  moreover have "(0x80 + c) mod 64 = c"
    using \<open>c < 64\<close> by (simp add: mod_add_left_eq [symmetric])
  ultimately show ?thesis
    by (simp add: and_masks)
qed

lemma unat_utf8_encode_cp:
  assumes "cp < 0x110000"
  shows "map unat (utf8_encode_cp cp) =
     (if cp < 0x80 then [cp]
      else if cp < 0x800 then [0xC0 + cp div 64, 0x80 + cp mod 64]
      else if cp < 0x10000 then [0xE0 + cp div 4096, 0x80 + cp div 64 mod 64, 0x80 + cp mod 64]
      else [0xF0 + cp div 262144, 0x80 + cp div 4096 mod 64, 0x80 + cp div 64 mod 64, 0x80 + cp mod 64])"
proof -
  have "cp div 262144 < 5"
    using assms by simp
  moreover have "cp < 0x800 \<Longrightarrow> cp div 64 < 32" "cp < 0x10000 \<Longrightarrow> cp div 4096 < 16"
    by simp_all
  ultimately show ?thesis
    by (simp add: utf8_encode_cp_def unat_of_nat del: of_nat_add)
qed


lemma digits3: "(cp :: nat) = (cp div 4096 * 64 + cp div 64 mod 64) * 64 + cp mod 64"
proof -
  have "cp div 64 = cp div 4096 * 64 + cp div 64 mod 64"
    using div_mult_mod_eq [of "cp div 64" 64] by (simp add: div_mult2_eq [symmetric])
  then show ?thesis
    using div_mult_mod_eq [of cp 64] by simp
qed

lemma digits4: "(cp :: nat) = ((cp div 262144 * 64 + cp div 4096 mod 64) * 64 + cp div 64 mod 64) * 64 + cp mod 64"
proof -
  have "cp div 4096 = cp div 262144 * 64 + cp div 4096 mod 64"
    using div_mult_mod_eq [of "cp div 4096" 64] by (simp add: div_mult2_eq [symmetric])
  then show ?thesis
    using digits3 [of cp] by simp
qed

lemma dec_lead:
  "0x7F < b \<Longrightarrow> utf8_lead b = Some (c, n, lo, hi) \<Longrightarrow> dec0 (b # bs) = utf8_dec c 0 n lo hi bs"
  by simp

lemma dec_encode:
  assumes "scalar_ok cp"
  shows "dec0 (map unat (utf8_encode_cp cp) @ rest) = cp # dec0 rest"
proof -
  have lt: "cp < 0x110000"
    using assms by (simp add: scalar_ok_def)
  define c where "c = cp mod 64"
  have c: "c < 64"
    by (simp add: c_def)
  consider "cp < 0x80" | "0x80 \<le> cp" "cp < 0x800" | "0x800 \<le> cp" "cp < 0x10000" | "0x10000 \<le> cp"
    by linarith
  then show ?thesis
  proof cases
    case 1
    then show ?thesis
      by (simp add: unat_utf8_encode_cp [OF lt])
  next
    case 2
    define a where "a = cp div 64"
    have a: "2 \<le> a" "a < 32"
      using div_le_mono [OF 2(1), of 64] 2(2) by (simp_all add: a_def div_less_iff_less_mult)
    have enc: "map unat (utf8_encode_cp cp) = [0xC0 + a, 0x80 + c]"
      using 2 by (simp add: unat_utf8_encode_cp [OF lt] a_def c_def)
    have "utf8_lead (0xC0 + a) = Some (a, 1, 0x80, 0xBF)"
      using a by (simp add: utf8_lead_def and_masks mod_add_multiple)
    then have "dec0 (map unat (utf8_encode_cp cp) @ rest) = utf8_dec a 0 1 0x80 0xBF ((0x80 + c) # rest)"
      unfolding enc by (simp only: append.simps dec_lead [of "0xC0 + a"])
    also have "\<dots> = (a * 64 + c) # dec0 rest"
      using c by (simp add: and_masks mod_add_multiple)
    finally show ?thesis
      by (simp add: a_def c_def)
  next
    case 3
    define a where "a = cp div 4096"
    define b where "b = cp div 64 mod 64"
    have d: "(a * 64 + b) * 64 + c = cp"
      unfolding a_def b_def c_def by (rule digits3 [symmetric])
    have ab: "a < 16" "b < 64"
      using 3 by (simp_all add: a_def b_def)
    have ab0: "a = 0 \<Longrightarrow> 32 \<le> b"
      using 3 d c by auto
    have ab13: "a = 13 \<Longrightarrow> b < 32"
      using 3 assms d c ab(2) unfolding scalar_ok_def by auto
    have enc: "map unat (utf8_encode_cp cp) = [0xE0 + a, 0x80 + b, 0x80 + c]"
      using 3 by (simp add: unat_utf8_encode_cp [OF lt] a_def b_def c_def)
    have "utf8_lead (0xE0 + a) = Some (a, 2, if a = 0 then 0xA0 else 0x80, if a = 13 then 0x9F else 0xBF)"
      using ab(1) by (simp add: utf8_lead_def and_masks mod_add_multiple)
    then have "dec0 (map unat (utf8_encode_cp cp) @ rest) =
        utf8_dec a 0 2 (if a = 0 then 0xA0 else 0x80) (if a = 13 then 0x9F else 0xBF) ((0x80 + b) # (0x80 + c) # rest)"
      unfolding enc by (simp only: append.simps dec_lead [of "0xE0 + a"])
    also have "\<dots> = utf8_dec (a * 64 + b) 1 2 0x80 0xBF ((0x80 + c) # rest)"
      using ab ab0 ab13 by (subst dec_cont) auto
    also have "\<dots> = ((a * 64 + b) * 64 + c) # dec0 rest"
      using c by (simp add: and_masks mod_add_multiple)
    finally show ?thesis
      by (simp only: d)
  next
    case 4
    define a where "a = cp div 262144"
    define b where "b = cp div 4096 mod 64"
    define e where "e = cp div 64 mod 64"
    have d: "((a * 64 + b) * 64 + e) * 64 + c = cp"
      unfolding a_def b_def c_def e_def by (rule digits4 [symmetric])
    have ab: "a < 5" "b < 64" "e < 64"
      using lt by (simp_all add: a_def b_def e_def)
    have ab0: "a = 0 \<Longrightarrow> 16 \<le> b"
      using 4 d c ab(3) by auto
    have ab4: "a = 4 \<Longrightarrow> b < 16"
      using lt d c ab(3) by auto
    have enc: "map unat (utf8_encode_cp cp) = [0xF0 + a, 0x80 + b, 0x80 + e, 0x80 + c]"
      using 4 by (simp add: unat_utf8_encode_cp [OF lt] a_def b_def c_def e_def)
    have "utf8_lead (0xF0 + a) = Some (a, 3, if a = 0 then 0x90 else 0x80, if a = 4 then 0x8F else 0xBF)"
      using ab(1) by (simp add: utf8_lead_def and_masks mod_add_multiple)
    then have "dec0 (map unat (utf8_encode_cp cp) @ rest) =
        utf8_dec a 0 3 (if a = 0 then 0x90 else 0x80) (if a = 4 then 0x8F else 0xBF)
          ((0x80 + b) # (0x80 + e) # (0x80 + c) # rest)"
      unfolding enc by (simp only: append.simps dec_lead [of "0xF0 + a"])
    also have "\<dots> = utf8_dec (a * 64 + b) 1 3 0x80 0xBF ((0x80 + e) # (0x80 + c) # rest)"
      using ab ab0 ab4 by (subst dec_cont) auto
    also have "\<dots> = utf8_dec ((a * 64 + b) * 64 + e) 2 3 0x80 0xBF ((0x80 + c) # rest)"
      using ab by (subst dec_cont) auto
    also have "\<dots> = (((a * 64 + b) * 64 + e) * 64 + c) # dec0 rest"
      using c by (simp add: and_masks mod_add_multiple)
    finally show ?thesis
      by (simp only: d)
  qed
qed


lemma scalars_wf:
  "wf_utf16 s \<Longrightarrow> (\<forall>cp \<in> set (scalars s). scalar_ok cp) \<and> concat (map utf16_of_cp (scalars s)) = s"
proof (induction s rule: scalars.induct)
  case 1
  then show ?case by simp
next
  case (2 c)
  then show ?case
    by (auto simp add: scalar_ok_def is_high_surrogate_def is_low_surrogate_def)
next
  case (3 c d cs)
  show ?case
  proof (cases "is_high_surrogate c")
    case True
    then have d: "is_low_surrogate d" "wf_utf16 cs"
      using "3.prems" by simp_all
    define cp where "cp = 0x10000 + (c - 0xD800) * 0x400 + (d - 0xDC00)"
    have hl: "0xD800 \<le> c" "c < 0xDC00" "0xDC00 \<le> d" "d < 0xE000"
      using True d(1) by (simp_all add: is_high_surrogate_def is_low_surrogate_def)
    have "scalar_ok cp"
      using hl by (simp add: scalar_ok_def cp_def)
    moreover have "utf16_of_cp cp = [c, d]"
    proof -
      define x where "x = c - 0xD800"
      define y where "y = d - 0xDC00"
      have "cp = 0x10000 + x * 0x400 + y" "y < 0x400" "c = 0xD800 + x" "d = 0xDC00 + y"
        using hl by (simp_all add: cp_def x_def y_def)
      then show ?thesis
        by simp
    qed
    moreover have "scalars (c # d # cs) = cp # scalars cs"
      using True d(1) by (simp add: cp_def)
    ultimately show ?thesis
      using "3.IH"(1) [OF True d(1)] d(2) by (simp del: utf16_of_cp.simps scalars.simps)
  next
    case False
    then have w: "wf_utf16 (d # cs)" "\<not> is_low_surrogate c" "c < 0x10000"
      using "3.prems" by simp_all
    moreover have "scalar_ok c"
      using False w(2,3) by (auto simp add: scalar_ok_def is_high_surrogate_def is_low_surrogate_def)
    ultimately show ?thesis
      using "3.IH"(4) [OF False w(2,1)] False by simp
  qed
qed

lemma dec_concat:
  "\<forall>cp \<in> set cps. scalar_ok cp \<Longrightarrow> dec0 (map unat (concat (map utf8_encode_cp cps))) = cps"
proof (induction cps)
  case Nil
  then show ?case by simp
next
  case (Cons cp cps)
  then show ?case
    using dec_encode [of cp "map unat (concat (map utf8_encode_cp cps))"] by simp
qed

lemma scalars_head:
  "wf_utf16 s \<Longrightarrow> take 1 s \<noteq> [0xFEFF] \<Longrightarrow> strip_bom (scalars s) = scalars s"
  by (cases s rule: scalars.cases)
     (auto simp add: strip_bom_def is_high_surrogate_def is_low_surrogate_def split: list.split)




lemma bytesToUtf8_utf8ToBytes:
  assumes "wf_utf16 s" "take 1 s \<noteq> [0xFEFF]"
  shows "bytesToUtf8 (utf8ToBytes s) = s"
  using scalars_wf [OF assms(1)] scalars_head [OF assms]
  by (simp add: bytesToUtf8_def utf8ToBytes_def dec_concat)

lemma utf8ToBytes_Nil_iff [simp]: "utf8ToBytes s = [] \<longleftrightarrow> s = []"
proof -
  have "utf8_encode_cp cp \<noteq> []" for cp
    by (simp add: utf8_encode_cp_def)
  moreover have "scalars s = [] \<longleftrightarrow> s = []"
    by (cases s rule: scalars.cases) simp_all
  ultimately show ?thesis
    by (cases "scalars s") (auto simp add: utf8ToBytes_def)
qed

subsection \<open>Lengths\<close>

lemma length_utf8_encode_cp:
  "length (utf8_encode_cp cp) = (if cp < 0x80 then 1 else if cp < 0x800 then 2 else if cp < 0x10000 then 3 else 4)"
  by (simp add: utf8_encode_cp_def)

lemma scalars_bmp:
  "\<forall>c \<in> set s. c < 0x10000 \<and> \<not> is_high_surrogate c \<and> \<not> is_low_surrogate c \<Longrightarrow> scalars s = s"
  by (induction s rule: scalars.induct) simp_all



subsection \<open>Properties of the text codec\<close>

text \<open>C29: \<open>bytesToUtf8\<close> inverts \<open>utf8ToBytes\<close> on every well-formed string
  (surrogates paired) that does not begin with U+FEFF.\<close>

theorem utf8_roundtrip:
  assumes "wf_utf16 s" "take 1 s \<noteq> [0xFEFF]"
  shows "bytesToUtf8 (utf8ToBytes s) = s"
  using assms by (rule bytesToUtf8_utf8ToBytes)

theorem utf8_roundtrip_witness:
  "wf_utf16 [0x61, 0xE9, 0x4E2D, 0xD83D, 0xDE00] \<and> take 1 [0x61, 0xE9, 0x4E2D, 0xD83D, 0xDE00] \<noteq> [0xFEFF :: nat] \<and>
   bytesToUtf8 (utf8ToBytes [0x61, 0xE9, 0x4E2D, 0xD83D, 0xDE00]) = [0x61, 0xE9, 0x4E2D, 0xD83D, 0xDE00]"
proof -
  have w: "wf_utf16 [0x61, 0xE9, 0x4E2D, 0xD83D, 0xDE00]"
    by (simp add: is_high_surrogate_def is_low_surrogate_def)
  show ?thesis
    using utf8_roundtrip [OF w] w by (simp add: is_high_surrogate_def is_low_surrogate_def)
qed



text \<open>C31: \<open>createHeader\<close> bounds the name by its UTF-8 bytes, not by its
  characters as its message ("File name must be 1-255 chars") says: a name of
  more than 85 characters from U+0800 to U+D7FF (three bytes each) is rejected.\<close>

theorem createHeader_counts_bytes:
  assumes "\<forall>c \<in> set s. 0x800 \<le> c \<and> c < 0xD800" "85 < length s"
  shows "createHeader \<lparr>rf_data = d, rf_name = utf8ToBytes s\<rparr> = Inl NameLength"
proof -
  have "scalars s = s"
    using assms(1) by (intro scalars_bmp) (auto simp add: is_high_surrogate_def is_low_surrogate_def)
  moreover have "length (utf8_encode_cp c) = 3" if "c \<in> set s" for c
    using bspec [OF assms(1) that] by (simp add: length_utf8_encode_cp)
  ultimately have "length (utf8ToBytes s) = 3 * length s"
    unfolding utf8ToBytes_def by (simp add: length_concat sum_list_triv cong: map_cong)
  then have "\<not> valid_name (utf8ToBytes s)"
    using assms(2) by (simp add: valid_name_def)
  then show ?thesis
    by (simp add: createHeader_err)
qed

theorem createHeader_counts_bytes_witness:
  "0x800 \<le> (0x4E2D :: nat) \<and> (0x4E2D :: nat) < 0xD800 \<and> 85 < length (replicate 86 (0x4E2D :: nat)) \<and>
   createHeader \<lparr>rf_data = [], rf_name = utf8ToBytes (replicate 86 0x4E2D)\<rparr> = Inl NameLength"
  using createHeader_counts_bytes [of "replicate 86 0x4E2D" "[]"] by simp





end
