(* ===== verification/File_Input.thy ===== *)
theory File_Input
  imports Utf8 Codec
begin

text \<open>
  \<open>RawFile.fromFileInput\<close> (\<open>src/index.ts\<close> lines 76--90): the first file of
  an \<open>input[type=file]\<close> read with a \<open>FileReader\<close>.  What the browser supplies
  is the value \<open>file_pick\<close>: no file (\<open>FileReader\<close> missing or no file chosen),
  or the file's name with the reader's outcome, \<open>None\<close> for its \<open>error\<close> event
  and otherwise \<open>reader.result\<close> on \<open>load\<close> (an \<open>ArrayBuffer\<close>, a string, or
  \<open>null\<close>).  The promise's rejections are the values of \<open>input_error\<close>.  The name
  is a JavaScript string and becomes the \<open>RawFile\<close>'s UTF-8 bytes.
\<close>

datatype read_result = ReadBuffer bytes | ReadText js_string | ReadNull

datatype file_pick = NoFilePicked | Picked js_string "read_result option"

datatype input_error =
    Rejected      \<comment> \<open>reject() with no reason: no FileReader or no file\<close>
  | NoFileRead    \<comment> \<open>reject(new Error('No file')): the result is null\<close>
  | ReaderError   \<comment> \<open>the reader's error event\<close>

definition fromFileInput :: "file_pick \<Rightarrow> input_error + raw_file" where
  "fromFileInput p =
     (case p of
        NoFilePicked \<Rightarrow> Inl Rejected
      | Picked name None \<Rightarrow> Inl ReaderError
      | Picked name (Some res) \<Rightarrow>
          (let res = (case res of
                        ReadText s \<Rightarrow> Some (utf8ToBytes s)
                      | ReadBuffer b \<Rightarrow> Some b
                      | ReadNull \<Rightarrow> None)
           in case res of
                None \<Rightarrow> Inl NoFileRead
              | Some dat \<Rightarrow> Inr (new_RawFile dat (utf8ToBytes name))))"

lemma fromFileInput_buffer:
  "name \<noteq> [] \<Longrightarrow> fromFileInput (Picked name (Some (ReadBuffer dat))) = Inr \<lparr>rf_data = dat, rf_name = utf8ToBytes name\<rparr>"
  by (simp add: fromFileInput_def)

text \<open>C38: a file picked in the browser survives the whole program: read by
  \<open>fromFileInput\<close>, hidden by \<open>hide\<close> in an RGBA image and revealed with the same
  key, it comes back with its content, and its name decodes to the picked
  name (a well-formed name not starting with U+FEFF).\<close>

theorem picked_file_roundtrip:
  assumes "aead_contract A" "length chs = 4 * Suc p"
      and "wf_utf16 name" "take 1 name \<noteq> [0xFEFF]" "name \<noteq> []" "length dat < 2 ^ 32"
      and "fromFileInput (Picked name (Some (ReadBuffer dat))) = Inr f"
      and "hide A k canvas rng chs f key bitsTaken = Inr out"
  shows "\<exists>g. reveal A out key = Inr g \<and> rf_data g = dat \<and> bytesToUtf8 (rf_name g) = name"
proof -
  have f: "f = \<lparr>rf_data = dat, rf_name = utf8ToBytes name\<rparr>"
    using assms(5,7) by (simp add: fromFileInput_buffer)
  then have "reveal A out key = Inr f"
    using codec_roundtrip [OF assms(1,2,8)] assms(6) by (simp add: rf_size_def)
  then show ?thesis
    using f bytesToUtf8_utf8ToBytes [OF assms(3,4)] by simp
qed

theorem picked_file_roundtrip_witness:
  "aead_contract toy_aead \<and> length (replicate 52 (0 :: byte)) = 4 * Suc 12 \<and>
   wf_utf16 [0x61] \<and> take 1 [0x61] \<noteq> [0xFEFF :: nat] \<and> [0x61 :: nat] \<noteq> [] \<and> length [170 :: byte] < 2 ^ 32 \<and>
   fromFileInput (Picked [0x61] (Some (ReadBuffer [170]))) = Inr \<lparr>rf_data = [170], rf_name = [97]\<rparr> \<and>
   hide toy_aead Uint8Clamped Some (\<lambda>_. 0) (replicate 52 0) \<lparr>rf_data = [170], rf_name = [97]\<rparr> 5 8 =
     Inr [1, 1, 1, 255, 0, 0, 0, 255, 0, 0, 0, 255, 0, 0, 0, 255, 0, 0, 0, 255,
          4, 100, 5, 255, 5, 5, 4, 255, 175, 5, 5, 255, 5, 5, 5, 255, 5, 5, 5,
          255, 5, 5, 5, 255, 5, 5, 5, 255, 5, 5, 5, 255] \<and>
   (\<exists>g. reveal toy_aead [1, 1, 1, 255, 0, 0, 0, 255, 0, 0, 0, 255, 0, 0, 0, 255, 0, 0, 0, 255,
          4, 100, 5, 255, 5, 5, 4, 255, 175, 5, 5, 255, 5, 5, 5, 255, 5, 5, 5,
          255, 5, 5, 5, 255, 5, 5, 5, 255, 5, 5, 5, 255] 5 = Inr g \<and>
        rf_data g = [170] \<and> bytesToUtf8 (rf_name g) = [0x61])"
proof -
  have u: "utf8ToBytes [0x61] = [97]"
    by (simp add: utf8ToBytes_def utf8_encode_cp_def is_high_surrogate_def is_low_surrogate_def)
  have l: "length (replicate 52 (0 :: byte)) = 4 * Suc 12" "wf_utf16 [0x61]" "take 1 [0x61] \<noteq> [0xFEFF :: nat]"
      "[0x61 :: nat] \<noteq> []" "length [170 :: byte] < 2 ^ 32"
    by (simp_all add: is_high_surrogate_def is_low_surrogate_def)
  have fi: "fromFileInput (Picked [0x61] (Some (ReadBuffer [170]))) = Inr \<lparr>rf_data = [170], rf_name = [97]\<rparr>"
    using fromFileInput_buffer [of "[0x61]" "[170]"] u by simp
  show ?thesis
    using picked_file_roundtrip [OF toy_aead_contract l fi toy_hide_example] toy_aead_contract l fi toy_hide_example
    by blast
qed

end
