(* ===== verification/Spec2Isabelle.thy ===== *)
theory Spec2Isabelle
  imports Demo Utils Steg_Object File_Input
begin

text \<open>
  \<^bold>\<open>A verification model of paulmillr/steg.\<close>

  The program (\<open>src/index.ts\<close>) hides a file in the least significant bits
  of the RGB channels of an RGBA pixel buffer.  Its parts, and the theory that
  models each:
  \<^item> helpers \<open>validateBits\<close>, \<open>clearBits\<close>, \<open>readBit\<close>, \<open>isAlpha\<close>,
    \<open>getRandomByte\<close> (lines 3--26): \<open>Primitives\<close>, together with the error
    datatype \<open>steg_error\<close>, one constructor per \<open>throw\<close> of the source.  The
    random source is a function \<open>rng = nat \<Rightarrow> byte\<close>; \<open>getRandomByte\<close> takes its
    first byte and shifts it.
  \<^item> \<open>RawFile\<close> (lines 47--148): \<open>FilePacker\<close>.  The packed layout is
    \<open>name_len (1 byte) || name || size (4 bytes, big endian) || content\<close>, with
    zero padding in \<open>packWithPadding\<close>; \<open>fromPacked\<close> parses it with the
    \<open>DataView\<close> semantics of the \<open>Prelude\<close> (reads past the end are
    \<open>RangeError\<close>, \<open>setUint32\<close> stores modulo \<open>2^32\<close>, \<open>subarray\<close> clamps).
  \<^item> \<open>StegImage.calcCapacity\<close> (202--218): \<open>Capacity\<close>, in rational arithmetic
    with the floor of the source.
  \<^item> \<open>StegImage.hideBlob\<close> (254--368): \<open>Writer\<close>.  The closure state is the
    record \<open>wstate\<close>; \<open>writeChannel\<close>, the header loop \<open>writeHeader\<close>, the
    payload loops \<open>pushBit\<close>/\<open>writeByte\<close>/\<open>writePayload\<close>, the leftover
    \<open>fillLeftover\<close>/\<open>flushLeftover\<close> and the random fill \<open>fillRest\<close> are one
    definition each, composed in \<open>hideBlob\<close> with the capacity check, the
    cursor check and the canvas check \<open>verifyCanvas\<close>.  Typed-array stores
    follow the array kind: \<open>Uint8Clamped\<close> (\<open>ImageData.data\<close>, 256 clamps to
    255) or \<open>Uint8Plain\<close> (the tests' \<open>Uint8Array\<close>, 256 wraps to 0); reads past
    the end are 0 and stores past the end are ignored.  The result is the
    written pixel buffer, which the source exports as a PNG blob URL.
  \<^item> \<open>revealBitsTaken\<close> and \<open>revealBlob\<close> (371--409): \<open>Reader\<close>, with the loop
    state \<open>rstate\<close>, the loop body \<open>pushChannel\<close> and the channel loop
    \<open>revealLoop\<close>.
  \<^item> \<open>StegImage.hide\<close> and \<open>reveal\<close> (224--237): \<open>Codec\<close>, over an interface
    \<open>aead\<close> to the external AES-GCM library with the contract \<open>aead_contract\<close>
    and, for the wrong-key path, the authenticity assumption \<open>aead_auth\<close>.
  \<^item> the \<open>StegImage\<close> object (167--200 and the in-place writes of
    \<open>hideBlob\<close>): \<open>Steg_Object\<close>, the record \<open>steg_image\<close> of the drawn image
    and \<open>imageData.data\<close>, the constructor and \<open>createCanvas\<close>/\<open>reset\<close>, and
    \<open>hideBlob\<close>/\<open>hide\<close>/\<open>reveal\<close> as methods that update it
    (\<open>hideBlob_written\<close> is the array when \<open>hideBlob\<close> returns or throws).
  \<^item> \<open>RawFile.fromFileInput\<close> (76--90): \<open>File_Input\<close>, over the browser's
    outcome \<open>file_pick\<close> (no file, or the name with the reader's result or
    error), with the promise's rejections as \<open>input_error\<close>.
  \<^item> \<open>utils.utf8ToBytes\<close>/\<open>bytesToUtf8\<close> (411--416): \<open>Utf8\<close>, the
    \<open>TextEncoder\<close>/\<open>TextDecoder\<close> algorithms of the WHATWG Encoding standard
    over strings of UTF-16 code units, including U+FFFD replacement and the
    decoder's BOM handling.
  \<^item> the demo page (\<open>src/demo/index.js\<close>): \<open>Demo\<close>, the encryption and
    decryption forms as state machines (\<open>enc_handle\<close>, \<open>dec_handle\<close>) over
    their caches and the inputs' \<open>disabled\<close> flags, with the reachable states
    of the encryption form as the inductive set \<open>enc_reach\<close>.
  \<^item> \<open>utils.formatSize\<close> (440--446): \<open>Utils\<close>.

  The proofs:
  \<^item> \<open>Writer_Loops\<close>: the data positions \<open>dpos j\<close> of the RGB channels; every
    loop of \<open>hideBlob\<close> equals a run \<open>writeVals\<close> of \<open>writeChannel\<close> calls (the
    payload accumulator refines to fixed-width groups \<open>chunk_vals\<close> of the bit
    stream).  \<open>Writer_Correct\<close>: the output of \<open>hideBlob\<close> position by position
    (\<open>hide_written\<close>); it succeeds on every fitting RGBA buffer, rejects
    oversized data, never reaches its defensive leftover errors, always fails
    with \<open>CursorMismatch\<close> on lengths 3 mod 4, and preserves the frame
    invariant \<open>wframe\<close> (high bits kept, alpha sentinels written).
  \<^item> \<open>Reader_Correct\<close>: the loop state refines an abstract reader
    (\<open>rabs\<close>, \<open>apush\<close>) under the invariant \<open>rinv\<close> (fewer than 8 pending bits,
    so \<open>buf << bitsTaken < 2^15\<close> and the 32-bit shift never overflows); the
    channel loop reads \<open>dpos 3 .. dpos (3 p + 3)\<close>; \<open>revealBlob\<close> equals the
    functional \<open>reveal_spec\<close>, fails exactly on buffers shorter than a pixel,
    and always returns exactly \<open>capacity.bytes\<close> bytes.
  \<^item> \<open>File_Input\<close>: a picked file survives \<open>fromFileInput\<close>, \<open>hide\<close> and
    \<open>reveal\<close> with its content and name (the composition of every part of the
    library but the demo).
  \<^item> \<open>Roundtrip\<close>: the header decodes to \<open>bitsTaken\<close>, and \<open>revealBlob\<close>
    inverts \<open>hideBlob\<close>.  \<open>Codec\<close>: \<open>reveal\<close> inverts \<open>hide\<close> under the AEAD
    contract, whose size check never fires.  This theory states both round
    trips and the round trip through the two forms of the demo.
  \<^item> \<open>FilePacker\<close>: the pack/unpack round trips, every error branch, and two
    findings: \<open>fromPacked\<close> accepts truncated content, the size field wraps.
  \<^item> \<open>Demo\<close>: invariants of both forms by rule induction over their
    reachable states (\<open>enc_reach\<close>: an enabled submit button means the raw
    file fits; \<open>dec_reach\<close>: it means a key is set, and submitting is a silent
    no-op exactly when no image is loaded, which a password alone allows), a
    wrong password ending in \<open>DecryptFailed\<close>, and three findings: the
    check ignores the packing and cipher overhead, the slider throws before an
    image is chosen, and the decryption form's error branch is unreachable.
  \<^item> \<open>Utils\<close>: \<open>formatSize\<close> prints sizes just below 1 MiB as \<open>1024.00KB\<close>.
  \<^item> \<open>Writer_Correct\<close> also shows where the random fill loop exits (at the
    buffer's length, or one past it when that is an alpha position).
  \<^item> \<open>Codec\<close>: \<open>hide\<close> returns for every file that fits the capacity with its
    28 bytes of overhead; \<open>revealBlob\<close> of a \<open>hide\<close> output is the ciphertext,
    so under \<open>aead_auth\<close> any other key gives \<open>DecryptFailed\<close>, which the
    decryption form of the demo reports for a wrong password.
  \<^item> \<open>Steg_Object\<close>: the method \<open>hide\<close> returns what \<open>Codec.hide\<close> returns on
    the object's \<open>imageData\<close>; a successful \<open>hide\<close> resets the object and its output is
    revealed by a \<open>StegImage\<close> built from it; every call keeps the image and
    the size of \<open>imageData\<close>; and a finding: a \<open>hideBlob\<close> that fails after
    writing (no context, verification mismatch) does not reset, so the object
    keeps the hidden data in its pixels.
  \<^item> \<open>Utf8\<close>: decoding inverts encoding on well-formed strings, encoded
    lengths lie between \<open>n\<close> and \<open>3 n\<close>, decoding yields at most one unit per
    byte (by computation induction over the decoder), and two findings on file
    names: a leading U+FEFF is lost through \<open>pack\<close>/\<open>fromPacked\<close>, and the
    255 limit counts bytes, so 86 CJK characters are too many.

  Loops are total: each \<open>function\<close> has a termination measure (the distance of
  the cursor to its bound; for the UTF-8 decoder, twice the bytes left plus one
  while a sequence is open, as a rejected byte is read again), so no fuel is
  used; the claims that \<open>hideBlob\<close>
  and \<open>revealBlob\<close> return are statements about total functions.

  Not modelled: the browser parts (image decoding in \<open>fromBytesOrURL\<close>,
  \<open>download\<close>, PNG export through \<open>toBlob\<close>, which the
  image's pixel buffer and the returned buffer stand for; \<open>createCanvas\<close> is
  the read-back of the image's pixels); in \<open>RawFile\<close> the name is carried as
  its UTF-8 bytes, which \<open>Utf8\<close> relates to the string; the AES-GCM library
  beyond its contract and the authenticity assumption; in the demo, labels,
  \<open>scrypt\<close>, file reading and image decoding (their results are the events'
  arguments) and the page's HTML; \<open>utils.bytesToURL\<close>, \<open>setImageSource\<close> and
  \<open>downloadFile\<close> (object URLs and the DOM); \<open>Number.isSafeInteger\<close>
  (bitsTaken is an integer).
\<close>


subsection \<open>The channel cursor: hiding and revealing a blob\<close>

text \<open>C2: \<open>revealBlob\<close> inverts \<open>hideBlob\<close>: whenever \<open>hideBlob(hData, bitsTaken)\<close>
  succeeds on an RGBA buffer (whatever the array kind, random source and canvas),
  \<open>revealBlob\<close> of the buffer it returns gives \<open>hData\<close> back, followed by filler
  bytes up to the capacity \<open>floor(3 p bitsTaken / 8)\<close>.\<close>

theorem revealBlob_hideBlob:
  assumes "hideBlob k canvas rng chs bitsTaken hData = Inr out" "length chs = 4 * Suc p"
  shows "\<exists>rest. revealBlob out = Inr (hData @ rest) \<and> length (hData @ rest) = 3 * p * nat bitsTaken div 8"
  using blob_roundtrip [OF assms] .

theorem revealBlob_hideBlob_witness:
  "hideBlob Uint8Plain Some (\<lambda>_. 0) (replicate 16 0) 1 [170] = Inr [0, 0, 0, 0, 1, 0, 1, 0, 0, 1, 0, 0, 1, 0, 0, 0] \<and>
   length (replicate 16 (0 :: byte)) = 4 * Suc 3 \<and>
   (\<exists>rest. revealBlob [0, 0, 0, 0, 1, 0, 1, 0, 0, 1, 0, 0, 1, 0, 0, 0] = Inr ([170] @ rest) \<and>
      length ([170] @ rest) = 3 * 3 * nat 1 div 8)"
proof -
  have h: "hideBlob Uint8Plain Some (\<lambda>_. 0) (replicate 16 0) 1 [170] = Inr [0, 0, 0, 0, 1, 0, 1, 0, 0, 1, 0, 0, 1, 0, 0, 0]"
    by code_simp
  have l: "length (replicate 16 (0 :: byte)) = 4 * Suc 3"
    by simp
  show ?thesis
    using revealBlob_hideBlob [OF h l] h l by blast
qed

subsection \<open>The whole codec\<close>



subsection \<open>The demo page over the codec\<close>



end
